theory Spec2Isabelle
  imports Main
begin

chapter \<open>The model\<close>

section \<open>Strings\<close>

text \<open>
  A JavaScript string is a sequence of code units; it is modelled as a \<open>char list\<close>.
  The model is exact on ASCII text: \<open>isSpace\<close> is the ASCII part of the class \<open>\s\<close>
  (which \<open>trim\<close> strips as well), the case mappings are those of the ASCII letters, and
  every other character is an ordinary character without case. The class \<open>\w\<close> is ASCII
  in JavaScript too.
\<close>

abbreviation squote :: char where "squote \<equiv> CHR 0x27"
abbreviation dquote :: char where "dquote \<equiv> CHR 0x22"
abbreviation backtick :: char where "backtick \<equiv> CHR 0x60"
abbreviation backslash :: char where "backslash \<equiv> CHR 0x5C"
abbreviation newline :: char where "newline \<equiv> CHR 0x0A"
abbreviation space :: char where "space \<equiv> CHR 0x20"

definition isSpace :: "char \<Rightarrow> bool" where
  "isSpace c \<longleftrightarrow> c \<in> set [CHR 0x09, newline, CHR 0x0B, CHR 0x0C, CHR 0x0D, space]"

definition isWord :: "char \<Rightarrow> bool" where
  "isWord c \<longleftrightarrow>
     c \<in> set ''abcdefghijklmnopqrstuvwxyzABCDEFGHIJKLMNOPQRSTUVWXYZ0123456789_''"

definition isQuote :: "char \<Rightarrow> bool" where
  "isQuote c \<longleftrightarrow> c = squote \<or> c = dquote \<or> c = backtick"

definition upperChar :: "char \<Rightarrow> char" where
  "upperChar c =
     (case map_of (zip ''abcdefghijklmnopqrstuvwxyz'' ''ABCDEFGHIJKLMNOPQRSTUVWXYZ'') c of
        Some u \<Rightarrow> u
      | None \<Rightarrow> c)"

definition lowerChar :: "char \<Rightarrow> char" where
  "lowerChar c =
     (case map_of (zip ''ABCDEFGHIJKLMNOPQRSTUVWXYZ'' ''abcdefghijklmnopqrstuvwxyz'') c of
        Some l \<Rightarrow> l
      | None \<Rightarrow> c)"

definition toUpperCase :: "string \<Rightarrow> string" where
  "toUpperCase s = map upperChar s"

definition toLowerCase :: "string \<Rightarrow> string" where
  "toLowerCase s = map lowerChar s"

definition trim :: "string \<Rightarrow> string" where
  "trim s = rev (dropWhile isSpace (rev (dropWhile isSpace s)))"

definition startsWith :: "string \<Rightarrow> string \<Rightarrow> bool" where
  "startsWith s p \<longleftrightarrow> take (length p) s = p"

text \<open>\<open>s.includes(p)\<close>: \<open>p\<close> occurs in \<open>s\<close> at some position.\<close>

fun str_includes :: "string \<Rightarrow> string \<Rightarrow> bool" where
  "str_includes [] p \<longleftrightarrow> p = []"
| "str_includes (c # cs) p \<longleftrightarrow> startsWith (c # cs) p \<or> str_includes cs p"

text \<open>\<open>s.indexOf(c)\<close> for a single character: the first position of \<open>c\<close>, or \<open>-1\<close>.\<close>

definition indexOf :: "string \<Rightarrow> char \<Rightarrow> int" where
  "indexOf s c = (if c \<in> set s then int (length (takeWhile (\<lambda>x. x \<noteq> c) s)) else - 1)"

text \<open>\<open>s.split(c)\<close> for a single character. The result is never empty, so it is returned
  as its first element and the list of the others.\<close>

fun str_split :: "string \<Rightarrow> char \<Rightarrow> string \<times> string list" where
  "str_split [] c = ([], [])"
| "str_split (x # xs) c =
     (case str_split xs c of (h, t) \<Rightarrow> if x = c then ([], h # t) else (x # h, t))"

text \<open>\<open>parts.join(sep)\<close>.\<close>

fun str_join :: "string list \<Rightarrow> string \<Rightarrow> string" where
  "str_join [] sep = []"
| "str_join [p] sep = p"
| "str_join (p # q # ps) sep = p @ sep @ str_join (q # ps) sep"

text \<open>Truthiness of a value that is a string or \<open>undefined\<close>: a non-empty string.\<close>

fun truthy :: "string option \<Rightarrow> bool" where
  "truthy None \<longleftrightarrow> False"
| "truthy (Some s) \<longleftrightarrow> s \<noteq> []"

section \<open>Regular expressions\<close>

text \<open>
  The regular expressions of the source use literals, character classes, greedy
  repetitions of a character class, sequence, alternation and capture groups.
  \<open>rx_match r (caps, s)\<close> lists every way \<open>r\<close> matches at the start of \<open>s\<close>, in the order
  a backtracking matcher tries them (a greedy repetition: the longest first); each
  result is the captures and the text left. The first result is the match JavaScript
  reports at that position.
\<close>

datatype regex =
    Lit string
  | Class "char \<Rightarrow> bool"
  | Rep "char \<Rightarrow> bool" nat
  | Seq regex regex
  | Alt regex regex
  | Group nat regex

type_synonym captures = "nat \<Rightarrow> string option"

fun rx_match :: "regex \<Rightarrow> captures \<times> string \<Rightarrow> (captures \<times> string) list" where
  "rx_match (Lit l) (c, s) = (if take (length l) s = l then [(c, drop (length l) s)] else [])"
| "rx_match (Class P) (c, s) =
     (case s of [] \<Rightarrow> [] | x # s' \<Rightarrow> if P x then [(c, s')] else [])"
| "rx_match (Rep P n) (c, s) =
     map (\<lambda>k. (c, drop k s)) (rev [n ..< Suc (length (takeWhile P s))])"
| "rx_match (Seq a b) st = concat (map (rx_match b) (rx_match a st))"
| "rx_match (Alt a b) st = rx_match a st @ rx_match b st"
| "rx_match (Group i r) (c, s) =
     map (\<lambda>(c', s'). (c'(i \<mapsto> take (length s - length s') s), s')) (rx_match r (c, s))"

fun seqs :: "regex list \<Rightarrow> regex" where
  "seqs [] = Lit []"
| "seqs [r] = r"
| "seqs (r # rs) = Seq r (seqs rs)"

text \<open>A match: the text before it, the matched text, the groups and the text after it.\<close>

record rx_result =
  m_before :: string
  m_text :: string
  m_groups :: captures
  m_after :: string

text \<open>\<open>s.match(r)\<close> without the \<open>g\<close> flag: the match at the leftmost position that has
  one, \<open>None\<close> for \<open>null\<close>.\<close>

fun rx_search :: "regex \<Rightarrow> string \<Rightarrow> rx_result option" where
  "rx_search r [] =
     (case rx_match r (Map.empty, []) of
        [] \<Rightarrow> None
      | (c, s') # _ \<Rightarrow> Some \<lparr>m_before = [], m_text = [], m_groups = c, m_after = s'\<rparr>)"
| "rx_search r (x # xs) =
     (case rx_match r (Map.empty, x # xs) of
        [] \<Rightarrow> map_option (\<lambda>m. m\<lparr>m_before := x # m_before m\<rparr>) (rx_search r xs)
      | (c, s') # _ \<Rightarrow>
          Some \<lparr>m_before = [], m_text = take (length (x # xs) - length s') (x # xs),
                m_groups = c, m_after = s'\<rparr>)"

lemma rx_match_suffix:
  "(c', s') \<in> set (rx_match r (c, s)) \<Longrightarrow> \<exists>k \<le> length s. s' = drop k s"
proof (induction r arbitrary: c s c' s')
  case (Lit l)
  then show ?case
    by (auto split: if_splits intro: exI [of _ "length l"]) (metis nat_le_linear take_all)
next
  case (Class P)
  then show ?case
    by (auto split: list.splits if_splits intro: exI [of _ 1])
next
  case (Rep P n)
  then show ?case
    using length_takeWhile_le [of P s]
    by (auto simp del: upt_Suc) (metis le_trans less_Suc_eq_le)
next
  case (Seq a b)
  then obtain c1 s1 where 1: "(c1, s1) \<in> set (rx_match a (c, s))"
    and 2: "(c', s') \<in> set (rx_match b (c1, s1))"
    by auto
  from Seq.IH(1) [OF 1] obtain k where k: "k \<le> length s" "s1 = drop k s" by blast
  from Seq.IH(2) [OF 2] obtain j where j: "j \<le> length s1" "s' = drop j s1" by blast
  from k j show ?case
    by (intro exI [of _ "j + k"]) (auto simp: add.commute)
next
  case (Alt a b)
  then show ?case by auto
next
  case (Group i r)
  then show ?case by auto
qed

lemma rx_match_hd_suffix:
  "rx_match r (c, s) = (c', s') # rest \<Longrightarrow> \<exists>k \<le> length s. s' = drop k s"
  using rx_match_suffix [of c' s' r c s] by simp

lemma rx_search_decomp:
  "rx_search r s = Some m \<Longrightarrow> s = m_before m @ m_text m @ m_after m"
proof (induction s arbitrary: m)
  case Nil
  then show ?case
    by (auto split: list.splits dest!: rx_match_hd_suffix)
next
  case (Cons x xs)
  show ?case
  proof (cases "rx_match r (Map.empty, x # xs)")
    case Nil
    with Cons.prems obtain m' where
      m': "rx_search r xs = Some m'" "m = m'\<lparr>m_before := x # m_before m'\<rparr>"
      by auto
    with Cons.IH [OF m'(1)] show ?thesis by simp
  next
    case (Cons p ps)
    obtain c' s' where p: "p = (c', s')" by (cases p)
    from rx_match_hd_suffix [OF Cons [unfolded p]] obtain k where
      k: "k \<le> length (x # xs)" "s' = drop k (x # xs)" by blast
    from Cons p Cons.prems have
      m: "m = \<lparr>m_before = [], m_text = take (length (x # xs) - length s') (x # xs),
                m_groups = c', m_after = s'\<rparr>"
      by simp
    from k have "length (x # xs) - length s' = k" by simp
    with m k show ?thesis by simp
  qed
qed

text \<open>\<open>s.replace(r, rep)\<close> with the \<open>g\<close> flag and a replacement text without \<open>$\<close>
  patterns: every match, left to right, each search starting where the match before it
  ended (one character further after an empty match).\<close>

function rx_replace_all :: "regex \<Rightarrow> string \<Rightarrow> string \<Rightarrow> string" where
  "rx_replace_all r rep s =
     (case rx_search r s of
        None \<Rightarrow> s
      | Some m \<Rightarrow>
          m_before m @ rep @
          (if m_text m = [] then
             (case m_after m of [] \<Rightarrow> [] | x # xs \<Rightarrow> x # rx_replace_all r rep xs)
           else rx_replace_all r rep (m_after m)))"
  by pat_completeness auto
termination
proof (relation "measure (\<lambda>(r, rep, s). length s)")
  show "wf (measure (\<lambda>(r, rep, s). length s))" by simp
next
  fix r rep s m x xs
  assume "rx_search r s = Some m" "m_text m = []" "m_after m = x # xs"
  then show "((r, rep, xs), (r, rep, s)) \<in> measure (\<lambda>(r, rep, s). length s)"
    using rx_search_decomp [of r s m] by simp
next
  fix r rep s m
  assume "rx_search r s = Some m" "m_text m \<noteq> []"
  then show "((r, rep, m_after m), (r, rep, s)) \<in> measure (\<lambda>(r, rep, s). length s)"
    using rx_search_decomp [of r s m] by (cases "m_text m") simp_all
qed

text \<open>\<open>s.matchAll(r)\<close>, the matches of a regular expression with the \<open>g\<close> flag.\<close>

function rx_match_all :: "regex \<Rightarrow> string \<Rightarrow> rx_result list" where
  "rx_match_all r s =
     (case rx_search r s of
        None \<Rightarrow> []
      | Some m \<Rightarrow>
          m # (if m_text m = [] then
                 (case m_after m of [] \<Rightarrow> [] | x # xs \<Rightarrow> rx_match_all r xs)
               else rx_match_all r (m_after m)))"
  by pat_completeness auto
termination
proof (relation "measure (\<lambda>(r, s). length s)")
  show "wf (measure (\<lambda>(r, s). length s))" by simp
next
  fix r s m x xs
  assume "rx_search r s = Some m" "m_text m = []" "m_after m = x # xs"
  then show "((r, xs), (r, s)) \<in> measure (\<lambda>(r, s). length s)"
    using rx_search_decomp [of r s m] by simp
next
  fix r s m
  assume "rx_search r s = Some m" "m_text m \<noteq> []"
  then show "((r, m_after m), (r, s)) \<in> measure (\<lambda>(r, s). length s)"
    using rx_search_decomp [of r s m] by (cases "m_text m") simp_all
qed

declare rx_replace_all.simps [simp del] rx_match_all.simps [simp del]

text \<open>\<open>s.replace(r, rep)\<close> for a regular expression anchored at the start (\<open>^\<close>) and
  without the \<open>g\<close> flag.\<close>

definition rx_replace_at_start :: "regex \<Rightarrow> string \<Rightarrow> string \<Rightarrow> string" where
  "rx_replace_at_start r rep s =
     (case rx_match r (Map.empty, s) of [] \<Rightarrow> s | (c, s') # _ \<Rightarrow> rep @ s')"

text \<open>A group of a match: \<open>m[i]\<close>. A group that took no part in the match is
  \<open>undefined\<close>; the code below uses every group as a string, so such a group is reported
  as a type error.\<close>

datatype error = TypeError | SyntaxError

definition match_group :: "rx_result \<Rightarrow> nat \<Rightarrow> error + string" where
  "match_group m i = (case m_groups m i of None \<Rightarrow> Inl TypeError | Some g \<Rightarrow> Inr g)"

section \<open>Tokenizer\<close>

text \<open>The local variables of \<open>tokenize\<close>: the tokens pushed so far, the token being
  built and the three flags.\<close>

record tok_state =
  tokens :: "string list"
  current :: string
  inSingle :: bool
  inDouble :: bool
  escaped :: bool

definition tok_init :: tok_state where
  "tok_init = \<lparr>tokens = [], current = [], inSingle = False, inDouble = False, escaped = False\<rparr>"

text \<open>One iteration of the character loop; the branches are the \<open>if ... continue\<close>
  blocks of the source, in their order.\<close>

definition tok_step :: "tok_state \<Rightarrow> char \<Rightarrow> tok_state" where
  "tok_step st ch =
     (if escaped st then st\<lparr>current := current st @ [ch], escaped := False\<rparr>
      else if ch = backslash \<and> \<not> inSingle st then st\<lparr>escaped := True\<rparr>
      else if ch = squote \<and> \<not> inDouble st then st\<lparr>inSingle := \<not> inSingle st\<rparr>
      else if ch = dquote \<and> \<not> inSingle st then st\<lparr>inDouble := \<not> inDouble st\<rparr>
      else if ch = space \<and> \<not> inSingle st \<and> \<not> inDouble st then
        (if length (current st) > 0
         then st\<lparr>tokens := tokens st @ [current st], current := []\<rparr>
         else st)
      else st\<lparr>current := current st @ [ch]\<rparr>)"

fun tok_loop :: "tok_state \<Rightarrow> string \<Rightarrow> tok_state" where
  "tok_loop st [] = st"
| "tok_loop st (ch # cs) = tok_loop (tok_step st ch) cs"

definition tok_finish :: "tok_state \<Rightarrow> string list" where
  "tok_finish st = (if length (current st) > 0 then tokens st @ [current st] else tokens st)"

definition tokenize :: "string \<Rightarrow> string list" where
  "tokenize input = tok_finish (tok_loop tok_init input)"

section \<open>The request record\<close>

record basic_auth =
  user :: string
  pass :: string

text \<open>\<open>interface ParsedRequest\<close>. An optional field is an \<open>option\<close>; \<open>headers\<close> is the
  object's own properties in the order \<open>Object.entries\<close> lists them.\<close>

record ParsedRequest =
  "method" :: string
  url :: string
  headers :: "(string \<times> string) list"
  body :: "string option"
  contentType :: "string option"
  auth :: "basic_auth option"
  followRedirects :: bool
  insecure :: bool

text \<open>The record every parser starts from.\<close>

definition new_request :: ParsedRequest where
  "new_request = \<lparr>method = ''GET'', url = [], headers = [], body = None, contentType = None,
     auth = None, followRedirects = True, insecure = False\<rparr>"

subsection \<open>Objects used as dictionaries\<close>

text \<open>
  \<open>obj[k] = v\<close> on a plain object whose values are strings. An existing property keeps
  its place; a new property whose name is an array index (a canonical decimal numeral
  below \<open>2^32 - 1\<close>) is listed among the array indices, in ascending order and before
  every other property; any other new property is listed last. Assigning a string to
  \<open>__proto__\<close> changes nothing.
\<close>

definition digitValue :: "char \<Rightarrow> nat" where
  "digitValue c =
     (case map_of (zip ''0123456789'' [0, 1, 2, 3, 4, 5, 6, 7, 8, 9]) c of
        Some d \<Rightarrow> d
      | None \<Rightarrow> 0)"

definition indexValue :: "string \<Rightarrow> nat" where
  "indexValue k = foldl (\<lambda>n c. 10 * n + digitValue c) 0 k"

definition isArrayIndex :: "string \<Rightarrow> bool" where
  "isArrayIndex k \<longleftrightarrow>
     k \<noteq> [] \<and> list_all (\<lambda>c. c \<in> set ''0123456789'') k
     \<and> (k = ''0'' \<or> take 1 k \<noteq> ''0'') \<and> indexValue k < 4294967295"

fun insert_index :: "string \<Rightarrow> 'v \<Rightarrow> (string \<times> 'v) list \<Rightarrow> (string \<times> 'v) list" where
  "insert_index k v [] = [(k, v)]"
| "insert_index k v ((k', v') # es) =
     (if isArrayIndex k' \<and> indexValue k' < indexValue k
      then (k', v') # insert_index k v es
      else (k, v) # (k', v') # es)"

definition set_prop :: "string \<Rightarrow> 'v \<Rightarrow> (string \<times> 'v) list \<Rightarrow> (string \<times> 'v) list" where
  "set_prop k v es =
     (if k = ''__proto__'' then es
      else if map_of es k \<noteq> None then map (\<lambda>(k', v'). if k' = k then (k', v) else (k', v')) es
      else if isArrayIndex k then insert_index k v es
      else es @ [(k, v)])"

definition get_prop :: "(string \<times> 'v) list \<Rightarrow> string \<Rightarrow> 'v option" where
  "get_prop es k = map_of es k"

section \<open>The command parser\<close>

text \<open>\<open>/\\\n\s*/g\<close> and \<open>/^curl\s+/\<close>.\<close>

definition re_continuation :: regex where
  "re_continuation = seqs [Lit [backslash, newline], Rep isSpace 0]"

definition re_curl :: regex where
  "re_curl = seqs [Lit ''curl'', Rep isSpace 1]"

text \<open>The variables the token loop updates: \<open>result\<close> and \<open>explicitMethod\<close>.\<close>

record parse_state =
  result :: ParsedRequest
  explicitMethod :: bool

definition set_header :: "string \<Rightarrow> string \<Rightarrow> parse_state \<Rightarrow> parse_state" where
  "set_header k v st = st\<lparr>result := (result st)\<lparr>headers := set_prop k v (headers (result st))\<rparr>\<rparr>"

text \<open>
  The body of the loop for the token at \<open>i\<close>, with \<open>next\<close> the token at \<open>i + 1\<close> when
  there is one. The result is the new state and whether the branch ran \<open>i++\<close>, that is
  whether it took \<open>next\<close> as its argument. The branches are the \<open>case\<close> labels of the
  \<open>switch\<close>, in their order.
\<close>

definition curl_step :: "parse_state \<Rightarrow> string \<Rightarrow> string option \<Rightarrow> parse_state \<times> bool" where
  "curl_step st token next =
     (if token = ''-X'' \<or> token = ''--request'' then
        (case next of
           Some n \<Rightarrow>
             if n \<noteq> [] then
               (st\<lparr>result := (result st)\<lparr>method := toUpperCase n\<rparr>, explicitMethod := True\<rparr>, True)
             else (st, False)
         | None \<Rightarrow> (st, False))
      else if token = ''-H'' \<or> token = ''--header'' then
        (case next of
           Some n \<Rightarrow>
             if n \<noteq> [] then
               (let colonIdx = indexOf n CHR '':'' in
                if colonIdx > 0 then
                  (let key = trim (take (nat colonIdx) n);
                       v = trim (drop (nat colonIdx + 1) n);
                       st1 = set_header key v st
                   in if toLowerCase key = ''content-type''
                      then (st1\<lparr>result := (result st1)\<lparr>contentType := Some v\<rparr>\<rparr>, True)
                      else (st1, True))
                else (st, True))
             else (st, False)
         | None \<Rightarrow> (st, False))
      else if token = ''-d'' \<or> token = ''--data'' \<or> token = ''--data-raw''
              \<or> token = ''--data-binary'' then
        (case next of
           Some n \<Rightarrow>
             if n \<noteq> [] then
               (let st1 = st\<lparr>result := (result st)\<lparr>body := Some n\<rparr>\<rparr>
                in if \<not> explicitMethod st1
                   then (st1\<lparr>result := (result st1)\<lparr>method := ''POST''\<rparr>\<rparr>, True)
                   else (st1, True))
             else (st, False)
         | None \<Rightarrow> (st, False))
      else if token = ''--data-urlencode'' then
        (case next of
           Some n \<Rightarrow>
             if n \<noteq> [] then
               (let st1 = st\<lparr>result := (result st)\<lparr>body :=
                            (case body (result st) of
                               Some b \<Rightarrow> if b \<noteq> [] then Some (b @ ''&'' @ n) else Some n
                             | None \<Rightarrow> Some n)\<rparr>\<rparr>;
                    st2 = (if \<not> explicitMethod st1
                           then st1\<lparr>result := (result st1)\<lparr>method := ''POST''\<rparr>\<rparr>
                           else st1)
                in if \<not> truthy (contentType (result st2)) then
                     (set_header ''Content-Type'' ''application/x-www-form-urlencoded''
                        (st2\<lparr>result := (result st2)\<lparr>contentType :=
                                Some ''application/x-www-form-urlencoded''\<rparr>\<rparr>), True)
                   else (st2, True))
             else (st, False)
         | None \<Rightarrow> (st, False))
      else if token = ''-u'' \<or> token = ''--user'' then
        (case next of
           Some n \<Rightarrow>
             if n \<noteq> [] then
               (case str_split n CHR '':'' of
                  (u, ps) \<Rightarrow>
                    (st\<lparr>result := (result st)\<lparr>auth :=
                           Some \<lparr>user = u,
                                 pass = (case ps of [] \<Rightarrow> [] | p # _ \<Rightarrow> p)\<rparr>\<rparr>\<rparr>, True))
             else (st, False)
         | None \<Rightarrow> (st, False))
      else if token = ''-L'' \<or> token = ''--location'' then
        (st\<lparr>result := (result st)\<lparr>followRedirects := True\<rparr>\<rparr>, False)
      else if token = ''-k'' \<or> token = ''--insecure'' then
        (st\<lparr>result := (result st)\<lparr>insecure := True\<rparr>\<rparr>, False)
      else if token = ''-A'' \<or> token = ''--user-agent'' then
        (case next of
           Some n \<Rightarrow> if n \<noteq> [] then (set_header ''User-Agent'' n st, True) else (st, False)
         | None \<Rightarrow> (st, False))
      else if token = ''-b'' \<or> token = ''--cookie'' then
        (case next of
           Some n \<Rightarrow> if n \<noteq> [] then (set_header ''Cookie'' n st, True) else (st, False)
         | None \<Rightarrow> (st, False))
      else if token = ''-e'' \<or> token = ''--referer'' then
        (case next of
           Some n \<Rightarrow> if n \<noteq> [] then (set_header ''Referer'' n st, True) else (st, False)
         | None \<Rightarrow> (st, False))
      else if token = ''--compressed'' then
        (if \<not> truthy (get_prop (headers (result st)) ''Accept-Encoding'')
         then (set_header ''Accept-Encoding'' ''gzip, deflate, br'' st, False)
         else (st, False))
      else if \<not> startsWith token ''-'' \<and> (startsWith token ''http'' \<or> startsWith token ''/'')
        then (st\<lparr>result := (result st)\<lparr>url := token\<rparr>\<rparr>, False)
      else (st, False))"

text \<open>The \<open>for\<close> loop over the tokens: the argument list is the tokens from \<open>i\<close> on.\<close>

fun curl_loop :: "parse_state \<Rightarrow> string list \<Rightarrow> parse_state" where
  "curl_loop st [] = st"
| "curl_loop st [token] = fst (curl_step st token None)"
| "curl_loop st (token # next # rest) =
     (case curl_step st token (Some next) of
        (st', consumed) \<Rightarrow> curl_loop st' (if consumed then rest else next # rest))"

definition normalize :: "string \<Rightarrow> string" where
  "normalize input = trim (rx_replace_all re_continuation '' '' input)"

definition curl_tokens :: "string \<Rightarrow> string list" where
  "curl_tokens input = tokenize (rx_replace_at_start re_curl [] (normalize input))"

definition parseCurl :: "string \<Rightarrow> ParsedRequest" where
  "parseCurl input =
     result (curl_loop \<lparr>result = new_request, explicitMethod = False\<rparr> (curl_tokens input))"

section \<open>The code generators\<close>

text \<open>
  \<open>JSON.parse\<close> is a function of the platform, not of this program. The functions that
  call it take it as the parameter \<open>JSON_parse\<close>: \<open>None\<close> when \<open>JSON.parse\<close> raises
  a syntax error, the parsed value otherwise. The generators only ask whether the body
  parses.
\<close>

text \<open>\<open>value.replace(/'/g, "\\'")\<close>.\<close>

definition escape_quotes :: "string \<Rightarrow> string" where
  "escape_quotes s = rx_replace_all (Lit [squote]) [backslash, squote] s"

definition header_line :: "string \<times> string \<Rightarrow> string" where
  "header_line kv = ''    '' @ [squote] @ fst kv @ [squote] @ '': '' @ [squote] @ escape_quotes (snd kv) @ [squote] @ '',''"

definition fetch_header_line :: "ParsedRequest \<Rightarrow> string \<times> string \<Rightarrow> string" where
  "fetch_header_line req kv =
     (if fst kv = ''Authorization'' \<and> auth req \<noteq> None
      then ''    '' @ [squote] @ ''Authorization'' @ [squote] @ '': '' @ [backtick] @ ''Basic ${credentials}'' @ [backtick] @ '',''
      else header_line kv)"

text \<open>The lines \<open>toFetch\<close> pushes, in order.\<close>

definition fetch_lines :: "(string \<Rightarrow> 'j option) \<Rightarrow> ParsedRequest \<Rightarrow> string list" where
  "fetch_lines JSON_parse req =
     (let hasOptions = (method req \<noteq> ''GET'' \<or> length (headers req) > 0 \<or> truthy (body req)
                        \<or> auth req \<noteq> None)
      in (case auth req of
            Some a \<Rightarrow>
              [''const credentials = btoa('' @ [squote] @ user a @ '':'' @ pass a @ [squote] @ '');'', []]
          | None \<Rightarrow> [])
         @ (if \<not> hasOptions then
              [''const response = await fetch('' @ [squote] @ url req @ [squote] @ '');'']
            else
              [''const response = await fetch('' @ [squote] @ url req @ [squote] @ '', {'',
               ''  method: '' @ [squote] @ method req @ [squote] @ '','']
              @ (let hs = (if auth req \<noteq> None
                           then set_prop ''Authorization''
                                  (''${'' @ [backtick] @ ''Basic ${credentials}'' @ [backtick] @ ''}'')
                                  (headers req)
                           else headers req)
                 in if length hs > 0
                    then [''  headers: {''] @ map (fetch_header_line req) hs @ [''  },'']
                    else [])
              @ (case body req of
                   Some b \<Rightarrow>
                     if b \<noteq> [] then
                       (case JSON_parse b of
                          Some j \<Rightarrow> [''  body: JSON.stringify('' @ b @ ''),'']
                        | None \<Rightarrow> [''  body: '' @ [squote] @ escape_quotes b @ [squote] @ '',''])
                     else []
                 | None \<Rightarrow> [])
              @ [''});''])
         @ [[], ''const data = await response.json();'', ''console.log(data);''])"

definition toFetch :: "(string \<Rightarrow> 'j option) \<Rightarrow> ParsedRequest \<Rightarrow> string" where
  "toFetch JSON_parse req = str_join (fetch_lines JSON_parse req) [newline]"

text \<open>The entries \<open>toAxios\<close> pushes on \<open>config\<close>.\<close>

definition axios_config :: "(string \<Rightarrow> 'j option) \<Rightarrow> ParsedRequest \<Rightarrow> string list" where
  "axios_config JSON_parse req =
     [''  method: '' @ [squote] @ toLowerCase (method req) @ [squote] @ '','',
      ''  url: '' @ [squote] @ url req @ [squote] @ '','']
     @ (if length (headers req) > 0
        then [''  headers: {''] @ map header_line (headers req) @ [''  },'']
        else [])
     @ (case auth req of
          Some a \<Rightarrow>
            [''  auth: {'',
             ''    username: '' @ [squote] @ user a @ [squote] @ '','',
             ''    password: '' @ [squote] @ pass a @ [squote] @ '','',
             ''  },'']
        | None \<Rightarrow> [])
     @ (case body req of
          Some b \<Rightarrow>
            if b \<noteq> [] then
              (case JSON_parse b of
                 Some j \<Rightarrow> [''  data: '' @ b @ '','']
               | None \<Rightarrow> [''  data: '' @ [squote] @ escape_quotes b @ [squote] @ '',''])
            else []
        | None \<Rightarrow> [])"

definition toAxios :: "(string \<Rightarrow> 'j option) \<Rightarrow> ParsedRequest \<Rightarrow> string" where
  "toAxios JSON_parse req =
     (if method req = ''GET'' \<and> \<not> truthy (body req) \<and> length (headers req) = 0
         \<and> auth req = None
      then str_join
             [''import axios from '' @ [squote] @ ''axios'' @ [squote] @ '';'', [],
              ''const { data } = await axios.get('' @ [squote] @ url req @ [squote] @ '');'',
              ''console.log(data);''] [newline]
      else str_join
             [''import axios from '' @ [squote] @ ''axios'' @ [squote] @ '';'', [],
              ''const { data } = await axios({'',
              str_join (axios_config JSON_parse req) [newline],
              ''});'', [],
              ''console.log(data);''] [newline])"

text \<open>The parts \<open>toCurl\<close> pushes; they are joined by a space, a backslash, a newline and
  two spaces.\<close>

definition curl_parts :: "ParsedRequest \<Rightarrow> string list" where
  "curl_parts req =
     [''curl'']
     @ (if method req \<noteq> ''GET'' then [''-X '' @ method req] else [])
     @ [[squote] @ url req @ [squote]]
     @ map (\<lambda>kv. ''-H '' @ [squote] @ fst kv @ '': '' @ snd kv @ [squote]) (headers req)
     @ (case auth req of
          Some a \<Rightarrow> [''-u '' @ [squote] @ user a @ '':'' @ pass a @ [squote]]
        | None \<Rightarrow> [])
     @ (case body req of
          Some b \<Rightarrow> if b \<noteq> [] then [''-d '' @ [squote] @ b @ [squote]] else []
        | None \<Rightarrow> [])
     @ (if insecure req then [''-k''] else [])"

definition toCurl :: "ParsedRequest \<Rightarrow> string" where
  "toCurl req = str_join (curl_parts req) ([space, backslash, newline] @ ''  '')"

section \<open>The code-snippet extractors\<close>

subsection \<open>The regular expressions\<close>

abbreviation ws :: regex where "ws \<equiv> Rep isSpace 0"
abbreviation quote :: regex where "quote \<equiv> Class isQuote"
abbreviation unquoted_text :: regex where "unquoted_text \<equiv> Rep (\<lambda>c. \<not> isQuote c) 1"

text \<open>\<open>/NAME\s*\(\s*['"`]([^'"`]+)['"`]/\<close>, for the calls \<open>fetch\<close>, \<open>axios.get\<close> and
  \<open>axios.post\<close>.\<close>

definition re_call :: "string \<Rightarrow> regex" where
  "re_call name = seqs [Lit name, ws, Lit ''('', ws, quote, Group 1 unquoted_text, quote]"

text \<open>\<open>/NAME\s*:\s*['"`]([^'"`]+)['"`]/\<close>, for the fields \<open>body\<close>, \<open>url\<close>, \<open>username\<close>
  and \<open>password\<close>.\<close>

definition re_field :: "string \<Rightarrow> regex" where
  "re_field name = seqs [Lit name, ws, Lit '':'', ws, quote, Group 1 unquoted_text, quote]"

text \<open>\<open>/method\s*:\s*['"`](\w+)['"`]/\<close>.\<close>

definition re_method :: regex where
  "re_method = seqs [Lit ''method'', ws, Lit '':'', ws, quote, Group 1 (Rep isWord 1), quote]"

text \<open>\<open>/NAME\s*:\s*\{([^}]+)\}/s\<close>, for the blocks \<open>headers\<close> and \<open>auth\<close>.\<close>

definition re_block :: "string \<Rightarrow> regex" where
  "re_block name =
     seqs [Lit name, ws, Lit '':'', ws, Lit ''{'', Group 1 (Rep (\<lambda>c. c \<noteq> CHR ''}'') 1), Lit ''}'']"

text \<open>\<open>/['"`]([^'"`]+)['"`]\s*:\s*['"`]([^'"`]+)['"`]/g\<close>.\<close>

definition re_header_entry :: regex where
  "re_header_entry =
     seqs [quote, Group 1 unquoted_text, quote, ws, Lit '':'', ws,
           quote, Group 2 unquoted_text, quote]"

text \<open>\<open>/body\s*:\s*JSON\.stringify\s*\(([^)]+)\)/s\<close>.\<close>

definition re_body_json :: regex where
  "re_body_json =
     seqs [Lit ''body'', ws, Lit '':'', ws, Lit ''JSON.stringify'', ws, Lit ''('',
           Group 1 (Rep (\<lambda>c. c \<noteq> CHR '')'') 1), Lit '')'']"

text \<open>\<open>/data\s*:\s*(['"`]([^'"`]+)['"`]|\{[^}]+\})/s\<close>.\<close>

definition re_data :: regex where
  "re_data =
     seqs [Lit ''data'', ws, Lit '':'', ws,
           Group 1 (Alt (seqs [quote, Group 2 unquoted_text, quote])
                        (seqs [Lit ''{'', Rep (\<lambda>c. c \<noteq> CHR ''}'') 1, Lit ''}'']))]"

subsection \<open>The extraction steps\<close>

definition bind :: "error + 'a \<Rightarrow> ('a \<Rightarrow> error + 'b) \<Rightarrow> error + 'b" where
  "bind x f = (case x of Inl e \<Rightarrow> Inl e | Inr a \<Rightarrow> f a)"

text \<open>\<open>const m = code.match(r); if (m) result.url = m[1];\<close>\<close>

definition extract_url :: "regex \<Rightarrow> string \<Rightarrow> ParsedRequest \<Rightarrow> error + ParsedRequest" where
  "extract_url r code res =
     (case rx_search r code of
        None \<Rightarrow> Inr res
      | Some m \<Rightarrow> bind (match_group m 1) (\<lambda>g. Inr (res\<lparr>url := g\<rparr>)))"

text \<open>\<open>if (methodMatch) result.method = methodMatch[1].toUpperCase();\<close>\<close>

definition extract_method :: "string \<Rightarrow> ParsedRequest \<Rightarrow> error + ParsedRequest" where
  "extract_method code res =
     (case rx_search re_method code of
        None \<Rightarrow> Inr res
      | Some m \<Rightarrow> bind (match_group m 1) (\<lambda>g. Inr (res\<lparr>method := toUpperCase g\<rparr>)))"

text \<open>The loop \<open>for (const match of headerEntries) result.headers[match[1]] = match[2];\<close>\<close>

fun header_entries :: "rx_result list \<Rightarrow> ParsedRequest \<Rightarrow> error + ParsedRequest" where
  "header_entries [] res = Inr res"
| "header_entries (m # ms) res =
     bind (match_group m 1) (\<lambda>k.
     bind (match_group m 2) (\<lambda>v.
     header_entries ms (res\<lparr>headers := set_prop k v (headers res)\<rparr>)))"

definition extract_headers :: "string \<Rightarrow> ParsedRequest \<Rightarrow> error + ParsedRequest" where
  "extract_headers code res =
     (case rx_search (re_block ''headers'') code of
        None \<Rightarrow> Inr res
      | Some headersBlock \<Rightarrow>
          bind (match_group headersBlock 1) (\<lambda>g. header_entries (rx_match_all re_header_entry g) res))"

text \<open>The body of \<open>parseFetchCode\<close>: the \<open>JSON.stringify\<close> form first, then the string
  form.\<close>

definition extract_fetch_body :: "string \<Rightarrow> ParsedRequest \<Rightarrow> error + ParsedRequest" where
  "extract_fetch_body code res =
     (let bodyStringMatch = rx_search (re_field ''body'') code;
          bodyJsonMatch = rx_search re_body_json code
      in case bodyJsonMatch of
           Some m \<Rightarrow> bind (match_group m 1) (\<lambda>g. Inr (res\<lparr>body := Some (trim g)\<rparr>))
         | None \<Rightarrow>
             (case bodyStringMatch of
                Some m \<Rightarrow> bind (match_group m 1) (\<lambda>g. Inr (res\<lparr>body := Some g\<rparr>))
              | None \<Rightarrow> Inr res))"

definition parseFetchCode :: "string \<Rightarrow> error + ParsedRequest" where
  "parseFetchCode code =
     bind (extract_url (re_call ''fetch'') code new_request) (\<lambda>r1.
     bind (extract_method code r1) (\<lambda>r2.
     bind (extract_headers code r2) (\<lambda>r3.
     extract_fetch_body code r3)))"

text \<open>\<open>if (simplePost) { result.url = simplePost[1]; result.method = 'POST'; }\<close>\<close>

definition extract_simple_post :: "string \<Rightarrow> ParsedRequest \<Rightarrow> error + ParsedRequest" where
  "extract_simple_post code res =
     (case rx_search (re_call ''axios.post'') code of
        None \<Rightarrow> Inr res
      | Some m \<Rightarrow> bind (match_group m 1) (\<lambda>g. Inr (res\<lparr>url := g, method := ''POST''\<rparr>)))"

definition extract_auth :: "string \<Rightarrow> ParsedRequest \<Rightarrow> error + ParsedRequest" where
  "extract_auth code res =
     (case rx_search (re_block ''auth'') code of
        None \<Rightarrow> Inr res
      | Some authBlock \<Rightarrow>
          bind (match_group authBlock 1) (\<lambda>g.
            (let userMatch = rx_search (re_field ''username'') g;
                 passMatch = rx_search (re_field ''password'') g
             in case userMatch of
                  None \<Rightarrow> Inr res
                | Some um \<Rightarrow>
                    bind (match_group um 1) (\<lambda>u.
                    bind (case passMatch of Some pm \<Rightarrow> match_group pm 1 | None \<Rightarrow> Inr [])
                      (\<lambda>p. Inr (res\<lparr>auth := Some \<lparr>user = u, pass = p\<rparr>\<rparr>))))))"

text \<open>\<open>if (dataMatch) result.body = dataMatch[2] || dataMatch[1];\<close>\<close>

definition extract_data :: "string \<Rightarrow> ParsedRequest \<Rightarrow> error + ParsedRequest" where
  "extract_data code res =
     (case rx_search re_data code of
        None \<Rightarrow> Inr res
      | Some m \<Rightarrow>
          Inr (res\<lparr>body := (if truthy (m_groups m 2) then m_groups m 2 else m_groups m 1)\<rparr>))"

definition parseAxiosCode :: "string \<Rightarrow> error + ParsedRequest" where
  "parseAxiosCode code =
     (case rx_search (re_call ''axios.get'') code of
        Some simpleGet \<Rightarrow> bind (match_group simpleGet 1) (\<lambda>g. Inr (new_request\<lparr>url := g\<rparr>))
      | None \<Rightarrow>
          bind (extract_simple_post code new_request) (\<lambda>r1.
          bind (extract_url (re_field ''url'') code r1) (\<lambda>r2.
          bind (extract_method code r2) (\<lambda>r3.
          bind (extract_headers code r3) (\<lambda>r4.
          bind (extract_auth code r4) (\<lambda>r5.
          extract_data code r5))))))"

section \<open>The collection importer\<close>

text \<open>
  \<open>interface PostmanItem\<close>, as the source declares it. A field the code tests before it
  uses it is an \<open>option\<close> (\<open>None\<close> for a missing field), also where the interface
  declares it required: \<open>request\<close>, \<open>method\<close> and \<open>url\<close>. An entry \<open>{key, value}\<close> is a
  pair.
\<close>

type_synonym key_value = "string \<times> string"

datatype PostmanUrl =
    UrlString string
  | UrlObject (raw: "string option") (protocol: "string option")
      (host: "string list option") (path: "string list option")

record PostmanBody =
  mode :: string
  body_raw :: "string option"
  urlencoded :: "key_value list option"
  formdata :: "key_value list option"

record PostmanAuth =
  auth_type :: string
  basic :: "key_value list option"

record PostmanRequest =
  req_method :: "string option"
  req_url :: "PostmanUrl option"
  header :: "key_value list option"
  req_body :: "PostmanBody option"
  req_auth :: "PostmanAuth option"

datatype PostmanItem =
  PostmanItem (name: string) (request: "PostmanRequest option") (item: "PostmanItem list option")

text \<open>The parsed collection: the importer reads its \<open>item\<close> field only.\<close>

record PostmanCollection =
  collection_item :: "PostmanItem list option"

text \<open>
  \<open>flattenItems\<close> pushes on the array \<open>items\<close> of the enclosing function; here the array
  is passed in and returned. An array is truthy also when it is empty, and so is a request
  object.
\<close>

fun flattenItems :: "PostmanItem list \<Rightarrow> PostmanItem list \<Rightarrow> PostmanItem list" where
  "flattenItems [] items = items"
| "flattenItems (PostmanItem n r (Some children) # rest) items =
     flattenItems rest (flattenItems children items)"
| "flattenItems (PostmanItem n (Some r) None # rest) items =
     flattenItems rest (items @ [PostmanItem n (Some r) None])"
| "flattenItems (PostmanItem n None None # rest) items = flattenItems rest items"

text \<open>\<open>a || b\<close> for a string or \<open>undefined\<close> on the left.\<close>

definition or_else :: "string option \<Rightarrow> string \<Rightarrow> string" where
  "or_else a b = (case a of Some s \<Rightarrow> if s \<noteq> [] then s else b | None \<Rightarrow> b)"

definition resolve_url :: "PostmanUrl option \<Rightarrow> string" where
  "resolve_url u =
     (case u of
        Some (UrlString s) \<Rightarrow> s
      | Some (UrlObject r pr h pa) \<Rightarrow>
          or_else r
            (or_else pr ''https'' @ ''://''
             @ or_else (map_option (\<lambda>hs. str_join hs ''.'') h) ''localhost'' @ ''/''
             @ or_else (map_option (\<lambda>ps. str_join ps ''/'') pa) [])
      | None \<Rightarrow> [])"

definition resolve_headers :: "key_value list option \<Rightarrow> (string \<times> string) list" where
  "resolve_headers hs =
     (case hs of
        Some l \<Rightarrow> foldl (\<lambda>headers h. set_prop (fst h) (snd h) headers) [] l
      | None \<Rightarrow> [])"

definition resolve_body :: "PostmanBody option \<Rightarrow> string option" where
  "resolve_body b =
     (case b of
        Some bd \<Rightarrow>
          if mode bd = ''raw'' \<and> truthy (body_raw bd) then body_raw bd
          else if mode bd = ''urlencoded'' \<and> urlencoded bd \<noteq> None then
            (case urlencoded bd of
               Some ps \<Rightarrow> Some (str_join (map (\<lambda>p. fst p @ ''='' @ snd p) ps) ''&'')
             | None \<Rightarrow> None)
          else None
      | None \<Rightarrow> None)"

definition resolve_auth :: "PostmanAuth option \<Rightarrow> basic_auth option" where
  "resolve_auth a =
     (case a of
        Some au \<Rightarrow>
          (case basic au of
             Some entries \<Rightarrow>
               if auth_type au = ''basic'' then
                 (let userEntry = find (\<lambda>e. fst e = ''username'') entries;
                      passEntry = find (\<lambda>e. fst e = ''password'') entries
                  in case userEntry of
                       Some ue \<Rightarrow> Some \<lparr>user = snd ue, pass = or_else (map_option snd passEntry) []\<rparr>
                     | None \<Rightarrow> None)
               else None
           | None \<Rightarrow> None)
      | None \<Rightarrow> None)"

text \<open>The callback of \<open>items.map\<close>, from \<open>req = item.request\<close> on.\<close>

definition request_record :: "PostmanRequest \<Rightarrow> ParsedRequest" where
  "request_record req =
     \<lparr>method = or_else (req_method req) ''GET'',
      url = resolve_url (req_url req),
      headers = resolve_headers (header req),
      body = resolve_body (req_body req),
      contentType = None,
      auth = resolve_auth (req_auth req),
      followRedirects = True,
      insecure = False\<rparr>"

text \<open>Reading a field of a missing request raises a type error.\<close>

definition item_request :: "PostmanItem \<Rightarrow> error + ParsedRequest" where
  "item_request it =
     (case request it of
        None \<Rightarrow> Inl TypeError
      | Some req \<Rightarrow> Inr (request_record req))"

fun map_items :: "PostmanItem list \<Rightarrow> error + ParsedRequest list" where
  "map_items [] = Inr []"
| "map_items (it # its) =
     bind (item_request it) (\<lambda>r. bind (map_items its) (\<lambda>rs. Inr (r # rs)))"

text \<open>\<open>JSON_parse\<close> is \<open>JSON.parse\<close>, with its result at the type the importer uses it at.\<close>

definition parsePostmanCollection ::
  "(string \<Rightarrow> PostmanCollection option) \<Rightarrow> string \<Rightarrow> error + ParsedRequest list" where
  "parsePostmanCollection JSON_parse json =
     (case JSON_parse json of
        None \<Rightarrow> Inl SyntaxError
      | Some collection \<Rightarrow>
          map_items (case collection_item collection of
                       Some l \<Rightarrow> flattenItems l []
                     | None \<Rightarrow> []))"

section \<open>The format detector\<close>

text \<open>
  A parsed JSON value. A number is an integer here: the detector only tests a number for
  truthiness. An object is the list of its properties, each name once.
\<close>

datatype json =
    JNull
  | JBool bool
  | JNumber int
  | JString string
  | JArray "json list"
  | JObject "(string \<times> json) list"

text \<open>Truthiness of a JSON value or \<open>undefined\<close>.\<close>

fun js_truthy :: "json option \<Rightarrow> bool" where
  "js_truthy None \<longleftrightarrow> False"
| "js_truthy (Some JNull) \<longleftrightarrow> False"
| "js_truthy (Some (JBool b)) \<longleftrightarrow> b"
| "js_truthy (Some (JNumber n)) \<longleftrightarrow> n \<noteq> 0"
| "js_truthy (Some (JString s)) \<longleftrightarrow> s \<noteq> []"
| "js_truthy (Some (JArray xs)) \<longleftrightarrow> True"
| "js_truthy (Some (JObject es)) \<longleftrightarrow> True"

text \<open>\<open>v.k\<close> for a property name \<open>k\<close> that no prototype defines (\<open>info\<close> and \<open>item\<close> are
  such names): a type error on \<open>null\<close>, the property of an object, \<open>undefined\<close> on any
  other value.\<close>

fun js_get :: "json \<Rightarrow> string \<Rightarrow> error + json option" where
  "js_get JNull k = Inl TypeError"
| "js_get (JObject es) k = Inr (map_of es k)"
| "js_get v k = Inr None"

datatype InputType = Curl | Fetch | Axios | Postman | Unknown

text \<open>The \<open>try\<close> block of \<open>detectType\<close>: the value of \<open>parsed.info && parsed.item\<close> as a
  condition, or the error raised.\<close>

definition postman_check :: "(string \<Rightarrow> json option) \<Rightarrow> string \<Rightarrow> error + bool" where
  "postman_check JSON_parse trimmed =
     (case JSON_parse trimmed of
        None \<Rightarrow> Inl SyntaxError
      | Some parsed \<Rightarrow>
          bind (js_get parsed ''info'') (\<lambda>info.
            if js_truthy info then bind (js_get parsed ''item'') (\<lambda>it. Inr (js_truthy it))
            else Inr False))"

definition detectType :: "(string \<Rightarrow> json option) \<Rightarrow> string \<Rightarrow> InputType" where
  "detectType JSON_parse input =
     (let trimmed = trim input in
      if startsWith trimmed ''curl '' \<or> startsWith trimmed (''curl'' @ [newline]) then Curl
      else if (case postman_check JSON_parse trimmed of Inr b \<Rightarrow> b | Inl e \<Rightarrow> False)
        then Postman
      else if str_includes trimmed ''fetch('' \<or> str_includes trimmed ''fetch ('' then Fetch
      else if str_includes trimmed ''axios'' then Axios
      else Unknown)"

section \<open>Notions the properties are stated with\<close>

subsection \<open>Quoting in the tokenizer\<close>

text \<open>The text that an unterminated double-quoted region stands for: a backslash is
  dropped and the character after it kept; \<open>None\<close> when the region is closed by an
  unescaped double quote.\<close>

fun open_dq_text :: "string \<Rightarrow> string option" where
  "open_dq_text [] = Some []"
| "open_dq_text [c] = (if c = dquote then None else if c = backslash then Some [] else Some [c])"
| "open_dq_text (c # d # cs) =
     (if c = backslash then map_option ((#) d) (open_dq_text cs)
      else if c = dquote then None
      else map_option ((#) c) (open_dq_text (d # cs)))"

definition unquoted :: "tok_state \<Rightarrow> bool" where
  "unquoted st \<longleftrightarrow> \<not> inSingle st \<and> \<not> inDouble st \<and> \<not> escaped st"

subsection \<open>Flags and their arguments\<close>

text \<open>The flags of the command parser that take the next token as their argument, and
  among them the method flags and the data flags.\<close>

definition takes_argument :: "string \<Rightarrow> bool" where
  "takes_argument t \<longleftrightarrow>
     t \<in> set [''-X'', ''--request'', ''-H'', ''--header'', ''-d'', ''--data'', ''--data-raw'',
               ''--data-binary'', ''--data-urlencode'', ''-u'', ''--user'', ''-A'',
               ''--user-agent'', ''-b'', ''--cookie'', ''-e'', ''--referer'']"

definition is_method_flag :: "string \<Rightarrow> bool" where
  "is_method_flag t \<longleftrightarrow> t = ''-X'' \<or> t = ''--request''"

definition is_data_flag :: "string \<Rightarrow> bool" where
  "is_data_flag t \<longleftrightarrow> t = ''-d'' \<or> t = ''--data'' \<or> t = ''--data-raw'' \<or> t = ''--data-binary''"

text \<open>The flags of a token list that stand where a flag is read and are followed by a
  non-empty token, each with that token, its argument; the token after an argument is
  read as a flag again.\<close>

fun flag_args :: "string list \<Rightarrow> (string \<times> string) list" where
  "flag_args [] = []"
| "flag_args [t] = []"
| "flag_args (t # n # rest) =
     (if takes_argument t \<and> n \<noteq> [] then (t, n) # flag_args rest else flag_args (n # rest))"

definition explicit_methods :: "(string \<times> string) list \<Rightarrow> string list" where
  "explicit_methods ps = map snd (filter (\<lambda>p. is_method_flag (fst p)) ps)"

definition sets_body :: "string \<times> string \<Rightarrow> bool" where
  "sets_body p \<longleftrightarrow> is_data_flag (fst p) \<or> fst p = ''--data-urlencode''"

definition data_given :: "(string \<times> string) list \<Rightarrow> bool" where
  "data_given ps \<longleftrightarrow> list_ex sets_body ps"

definition last_body_flag :: "(string \<times> string) list \<Rightarrow> (string \<times> string) option" where
  "last_body_flag ps = (case filter sets_body ps of [] \<Rightarrow> None | b # rest \<Rightarrow> Some (last (b # rest)))"

subsection \<open>The leaves of a collection\<close>

text \<open>
  The traversal as the specification describes it: depth first and in document order, a
  node with a nested list stands for the leaves below it (its own request is ignored), a
  node without a nested list and with a request is a leaf, and any other node contributes
  nothing. \<open>preorder_leaves\<close> lists the leaf nodes, \<open>leaf_requests\<close> their requests.
\<close>

fun preorder_leaves :: "PostmanItem \<Rightarrow> PostmanItem list" where
  "preorder_leaves (PostmanItem n r (Some children)) = concat (map preorder_leaves children)"
| "preorder_leaves (PostmanItem n (Some r) None) = [PostmanItem n (Some r) None]"
| "preorder_leaves (PostmanItem n None None) = []"

fun leaf_requests :: "PostmanItem \<Rightarrow> PostmanRequest list" where
  "leaf_requests (PostmanItem n r (Some children)) = concat (map leaf_requests children)"
| "leaf_requests (PostmanItem n (Some r) None) = [r]"
| "leaf_requests (PostmanItem n None None) = []"

subsection \<open>Groups a regular expression always sets\<close>

text \<open>\<open>binds i r\<close>: the group \<open>i\<close> lies on every path through \<open>r\<close>, so every match of
  \<open>r\<close> defines it.\<close>

fun binds :: "nat \<Rightarrow> regex \<Rightarrow> bool" where
  "binds i (Group j r) \<longleftrightarrow> i = j \<or> binds i r"
| "binds i (Seq a b) \<longleftrightarrow> binds i a \<or> binds i b"
| "binds i (Alt a b) \<longleftrightarrow> binds i a \<and> binds i b"
| "binds i r \<longleftrightarrow> False"

text \<open>\<open>consumes r\<close>: every match of \<open>r\<close> has at least one character. \<open>mentions i r\<close>:
  the group \<open>i\<close> occurs in \<open>r\<close>. \<open>binds_text i r\<close>: every match of \<open>r\<close> defines the
  group \<open>i\<close> and its text is not empty.\<close>

fun consumes :: "regex \<Rightarrow> bool" where
  "consumes (Lit l) \<longleftrightarrow> l \<noteq> []"
| "consumes (Class P) \<longleftrightarrow> True"
| "consumes (Rep P n) \<longleftrightarrow> n > 0"
| "consumes (Seq a b) \<longleftrightarrow> consumes a \<or> consumes b"
| "consumes (Alt a b) \<longleftrightarrow> consumes a \<and> consumes b"
| "consumes (Group j r) \<longleftrightarrow> consumes r"

fun mentions :: "nat \<Rightarrow> regex \<Rightarrow> bool" where
  "mentions i (Group j r) \<longleftrightarrow> i = j \<or> mentions i r"
| "mentions i (Seq a b) \<longleftrightarrow> mentions i a \<or> mentions i b"
| "mentions i (Alt a b) \<longleftrightarrow> mentions i a \<or> mentions i b"
| "mentions i r \<longleftrightarrow> False"

fun binds_text :: "nat \<Rightarrow> regex \<Rightarrow> bool" where
  "binds_text i (Group j r) \<longleftrightarrow> (if i = j then consumes r else binds_text i r)"
| "binds_text i (Seq a b) \<longleftrightarrow> (binds_text i a \<and> \<not> mentions i b) \<or> binds_text i b"
| "binds_text i (Alt a b) \<longleftrightarrow> binds_text i a \<and> binds_text i b"
| "binds_text i r \<longleftrightarrow> False"

subsection \<open>An example snippet\<close>

text \<open>A call with a URL and an options object that has a method, headers, an auth block
  and data; \<open>call\<close> is the name of the function called.\<close>

definition axios_example :: "string \<Rightarrow> string" where
  "axios_example call =
     call @ ''('' @ [squote] @ ''http://x'' @ [squote] @ '', { method: '' @ [squote] @ ''put''
     @ [squote] @ '', headers: { '' @ [squote] @ ''A'' @ [squote] @ '': '' @ [squote] @ ''b''
     @ [squote] @ '' }, auth: { username: '' @ [squote] @ ''u'' @ [squote] @ '', password: ''
     @ [squote] @ ''p'' @ [squote] @ '' }, data: '' @ [squote] @ ''d'' @ [squote] @ '' })''"

chapter \<open>Properties\<close>

section \<open>The tokenizer\<close>

lemma tok_loop_append: "tok_loop st (xs @ ys) = tok_loop (tok_loop st xs) ys"
  by (induction xs arbitrary: st) simp_all

lemma tok_loop_in_single:
  "inSingle st \<Longrightarrow> \<not> escaped st \<Longrightarrow> squote \<notin> set rest \<Longrightarrow>
   tok_loop st rest = st\<lparr>current := current st @ rest\<rparr>"
proof (induction rest arbitrary: st)
  case Nil
  then show ?case by simp
next
  case (Cons c rest)
  from Cons.prems have step: "tok_step st c = st\<lparr>current := current st @ [c]\<rparr>"
    by (auto simp: tok_step_def)
  have "tok_loop (st\<lparr>current := current st @ [c]\<rparr>) rest =
        st\<lparr>current := current st @ [c]\<rparr>\<lparr>current := (current st @ [c]) @ rest\<rparr>"
    using Cons.prems Cons.IH [of "st\<lparr>current := current st @ [c]\<rparr>"] by simp
  with step show ?case by simp
qed

lemma tok_loop_in_double:
  "inDouble st \<Longrightarrow> \<not> inSingle st \<Longrightarrow> \<not> escaped st \<Longrightarrow> open_dq_text rest = Some t \<Longrightarrow>
   tokens (tok_loop st rest) = tokens st \<and> current (tok_loop st rest) = current st @ t"
proof (induction rest arbitrary: st t rule: open_dq_text.induct)
  case 1
  then show ?case by simp
next
  case (2 c)
  then show ?case by (auto simp: tok_step_def split: if_splits)
next
  case (3 c d cs)
  show ?case
  proof (cases "c = backslash")
    case True
    with "3.prems" obtain t' where t': "open_dq_text cs = Some t'" "t = d # t'"
      by auto
    let ?st = "st\<lparr>escaped := True\<rparr>\<lparr>current := current st @ [d], escaped := False\<rparr>"
    have steps: "tok_step (tok_step st c) d = ?st"
      using True "3.prems" by (simp add: tok_step_def)
    have "tokens (tok_loop ?st cs) = tokens ?st \<and> current (tok_loop ?st cs) = current ?st @ t'"
      using "3.prems" t' True by (intro "3.IH"(1)) simp_all
    with steps t' show ?thesis by simp
  next
    case False
    with "3.prems" have ndq: "c \<noteq> dquote" by (auto split: if_splits)
    with False "3.prems" obtain t' where t': "open_dq_text (d # cs) = Some t'" "t = c # t'"
      by auto
    let ?st = "st\<lparr>current := current st @ [c]\<rparr>"
    have step: "tok_step st c = ?st"
      using False ndq "3.prems" by (simp add: tok_step_def)
    have "tokens (tok_loop ?st (d # cs)) = tokens ?st \<and>
          current (tok_loop ?st (d # cs)) = current ?st @ t'"
      using "3.prems" t' False ndq by (intro "3.IH"(2)) simp_all
    with step t' show ?thesis by simp
  qed
qed

lemma tok_step_escaped_char:
  "\<not> inSingle st \<Longrightarrow> \<not> escaped st \<Longrightarrow>
   tok_step (tok_step st backslash) q = st\<lparr>current := current st @ [q]\<rparr>"
  by (simp add: tok_step_def)

text \<open>
  Claim C4. The tokenizer splits \<open>a 'b c' d\<close> into \<open>a\<close>, \<open>b c\<close>, \<open>d\<close>. When a quote is
  opened (after a prefix \<open>pre\<close> that leaves the scanner outside quotes) and never closed,
  no token ends after it: everything from the quote to the end of the input is added to the
  token under construction, which is the single final token (for a double quote, with the
  escaping backslashes removed). A backslash followed by a quote character, outside quotes,
  appends the quote character to the token and leaves both quoting flags as they were.
\<close>

theorem tokenize_quoting:
  "tokenize ''a 'b c' d'' = [''a'', ''b c'', ''d'']
   \<and> (unquoted (tok_loop tok_init pre) \<and> squote \<notin> set rest \<longrightarrow>
        tokenize (pre @ squote # rest) =
          tokens (tok_loop tok_init pre) @
          (if current (tok_loop tok_init pre) @ rest = [] then []
           else [current (tok_loop tok_init pre) @ rest]))
   \<and> (unquoted (tok_loop tok_init pre) \<and> open_dq_text rest = Some t \<longrightarrow>
        tokenize (pre @ dquote # rest) =
          tokens (tok_loop tok_init pre) @
          (if current (tok_loop tok_init pre) @ t = [] then []
           else [current (tok_loop tok_init pre) @ t]))
   \<and> (unquoted st \<and> (q = squote \<or> q = dquote) \<longrightarrow>
        tok_loop st (backslash # q # cs) = tok_loop (st\<lparr>current := current st @ [q]\<rparr>) cs
        \<and> unquoted (st\<lparr>current := current st @ [q]\<rparr>))"
proof (intro conjI impI)
  show "tokenize ''a 'b c' d'' = [''a'', ''b c'', ''d'']"
    by (simp add: tokenize_def tok_finish_def tok_init_def tok_step_def)
next
  assume h: "unquoted (tok_loop tok_init pre) \<and> squote \<notin> set rest"
  define s0 where "s0 = tok_loop tok_init pre"
  from h have u: "\<not> inSingle s0" "\<not> inDouble s0" "\<not> escaped s0" and r: "squote \<notin> set rest"
    by (simp_all add: unquoted_def s0_def)
  have "tok_step s0 squote = s0\<lparr>inSingle := True\<rparr>"
    using u by (simp add: tok_step_def)
  moreover have "tok_loop (s0\<lparr>inSingle := True\<rparr>) rest =
      s0\<lparr>inSingle := True\<rparr>\<lparr>current := current (s0\<lparr>inSingle := True\<rparr>) @ rest\<rparr>"
    using u r by (intro tok_loop_in_single) simp_all
  ultimately have "tok_loop tok_init (pre @ squote # rest) =
      s0\<lparr>inSingle := True, current := current s0 @ rest\<rparr>"
    by (simp add: tok_loop_append s0_def)
  then show "tokenize (pre @ squote # rest) =
          tokens (tok_loop tok_init pre) @
          (if current (tok_loop tok_init pre) @ rest = [] then []
           else [current (tok_loop tok_init pre) @ rest])"
    by (simp add: tokenize_def tok_finish_def s0_def)
next
  assume h: "unquoted (tok_loop tok_init pre) \<and> open_dq_text rest = Some t"
  define s0 where "s0 = tok_loop tok_init pre"
  from h have u: "\<not> inSingle s0" "\<not> inDouble s0" "\<not> escaped s0"
    and r: "open_dq_text rest = Some t"
    by (simp_all add: unquoted_def s0_def)
  have "tok_step s0 dquote = s0\<lparr>inDouble := True\<rparr>"
    using u by (simp add: tok_step_def)
  moreover have "tokens (tok_loop (s0\<lparr>inDouble := True\<rparr>) rest) = tokens (s0\<lparr>inDouble := True\<rparr>)
      \<and> current (tok_loop (s0\<lparr>inDouble := True\<rparr>) rest) = current (s0\<lparr>inDouble := True\<rparr>) @ t"
    using u r by (intro tok_loop_in_double) simp_all
  ultimately have "tokens (tok_loop tok_init (pre @ dquote # rest)) = tokens s0"
    "current (tok_loop tok_init (pre @ dquote # rest)) = current s0 @ t"
    by (simp_all add: tok_loop_append s0_def)
  then show "tokenize (pre @ dquote # rest) =
          tokens (tok_loop tok_init pre) @
          (if current (tok_loop tok_init pre) @ t = [] then []
           else [current (tok_loop tok_init pre) @ t])"
    by (simp add: tokenize_def tok_finish_def s0_def)
next
  assume h: "unquoted st \<and> (q = squote \<or> q = dquote)"
  then show "tok_loop st (backslash # q # cs) = tok_loop (st\<lparr>current := current st @ [q]\<rparr>) cs"
    by (simp add: tok_step_escaped_char unquoted_def)
next
  assume h: "unquoted st \<and> (q = squote \<or> q = dquote)"
  then show "unquoted (st\<lparr>current := current st @ [q]\<rparr>)"
    by (simp add: unquoted_def)
qed

theorem tokenize_quoting_witness:
  "unquoted (tok_loop tok_init ''a '') \<and> squote \<notin> set (''b'' @ [backslash, dquote] @ ''c d'')
   \<and> open_dq_text (''b'' @ [backslash, dquote] @ ''c d'') = Some (''b'' @ [dquote] @ ''c d'')
   \<and> unquoted tok_init
   \<and> tokenize (''a '' @ squote # ''b'' @ [backslash, dquote] @ ''c d'') = [''a'', ''b'' @ [backslash, dquote] @ ''c d'']
   \<and> tokenize (''a '' @ dquote # ''b'' @ [backslash, dquote] @ ''c d'') = [''a'', ''b'' @ [dquote] @ ''c d'']
   \<and> tok_loop tok_init (backslash # squote # ''b c'') = tok_loop (tok_init\<lparr>current := [squote]\<rparr>) ''b c''
   \<and> tokenize (backslash # squote # ''b c'') = [squote # ''b'', ''c'']"
  using tokenize_quoting [where pre = "''a ''" and rest = "''b'' @ [backslash, dquote] @ ''c d''"
      and t = "''b'' @ [dquote] @ ''c d''" and st = tok_init and q = squote and cs = "''b c''"]
  by (simp add: unquoted_def tok_init_def tok_step_def tokenize_def tok_finish_def)

section \<open>The command parser\<close>

lemmas curl_eval = parseCurl_def curl_tokens_def normalize_def rx_replace_all.simps
  rx_replace_at_start_def re_continuation_def re_curl_def trim_def isSpace_def tokenize_def
  tok_finish_def tok_init_def tok_step_def curl_step_def new_request_def set_header_def
  set_prop_def get_prop_def toUpperCase_def upperChar_def toLowerCase_def lowerChar_def
  indexOf_def startsWith_def isArrayIndex_def indexValue_def digitValue_def Let_def

text \<open>
  Claim C2 (the argument of the basic-auth flag is split at its first colon, the password
  being everything after it). The code splits the argument at every colon and keeps the
  first two parts: for \<open>-u alice:a:b\<close> the password is \<open>a\<close>, not \<open>a:b\<close>.
\<close>

theorem basic_auth_second_colon:
  "auth (parseCurl ''curl -u alice:a:b http://x'') = Some \<lparr>user = ''alice'', pass = ''a''\<rparr>"
  by (simp add: curl_eval)

lemma basic_auth_examples:
  "auth (parseCurl ''curl -u alice:secret http://x'') = Some \<lparr>user = ''alice'', pass = ''secret''\<rparr>"
  "auth (parseCurl ''curl -u alice http://x'') = Some \<lparr>user = ''alice'', pass = []\<rparr>"
  by (simp_all add: curl_eval)

lemma curl_step_consumed:
  "snd (curl_step st t (Some n)) \<longleftrightarrow> takes_argument t \<and> n \<noteq> []"
  by (simp add: curl_step_def takes_argument_def Let_def split: prod.splits)

lemma curl_step_none: "snd (curl_step st t None) = False"
  by (simp add: curl_step_def)

lemma curl_step_explicit:
  "explicitMethod (fst (curl_step st t nx)) \<longleftrightarrow> explicitMethod st \<or> (is_method_flag t \<and> truthy nx)"
  by (cases nx) (auto simp: curl_step_def is_method_flag_def is_data_flag_def Let_def set_header_def split: prod.splits option.splits)

lemma curl_step_method':
  "method (result (fst (curl_step st t nx))) =
     (case nx of
        None \<Rightarrow> method (result st)
      | Some n \<Rightarrow>
          if n = [] then method (result st)
          else if is_method_flag t then toUpperCase n
          else if sets_body (t, n) \<and> \<not> explicitMethod st then ''POST''
          else method (result st))"
  by (cases nx) (auto simp: curl_step_def is_method_flag_def is_data_flag_def sets_body_def Let_def set_header_def split: prod.splits option.splits)

lemma is_method_flag_takes: "is_method_flag t \<Longrightarrow> takes_argument t"
  by (auto simp: is_method_flag_def takes_argument_def)

lemma sets_body_takes: "sets_body (t, n) \<Longrightarrow> takes_argument t"
  by (auto simp: sets_body_def is_data_flag_def takes_argument_def)

lemma sets_body_not_method: "sets_body (t, n) \<Longrightarrow> \<not> is_method_flag t"
  by (auto simp: sets_body_def is_data_flag_def is_method_flag_def)

lemma curl_loop_method:
  "method (result (curl_loop st toks)) =
     (case explicit_methods (flag_args toks) of
        [] \<Rightarrow> if \<not> explicitMethod st \<and> data_given (flag_args toks) then ''POST''
              else method (result st)
      | m # ms \<Rightarrow> toUpperCase (last (m # ms)))"
proof (induction st toks rule: curl_loop.induct)
  case (1 st)
  then show ?case by (simp add: explicit_methods_def data_given_def)
next
  case (2 st token)
  then show ?case by (simp add: explicit_methods_def data_given_def curl_step_method')
next
  case (3 st token "next" rest)
  obtain st' consumed where step: "curl_step st token (Some next) = (st', consumed)"
    by (cases "curl_step st token (Some next)")
  have consumed: "consumed \<longleftrightarrow> takes_argument token \<and> next \<noteq> []"
    using curl_step_consumed [of st token "next"] step by simp
  have m': "method (result st') =
      (if next = [] then method (result st)
       else if is_method_flag token then toUpperCase next
       else if sets_body (token, next) \<and> \<not> explicitMethod st then ''POST''
       else method (result st))"
    using curl_step_method' [of st token "Some next"] step by simp
  have e': "explicitMethod st' \<longleftrightarrow> explicitMethod st \<or> (is_method_flag token \<and> next \<noteq> [])"
    using curl_step_explicit [of st token "Some next"] step by simp
  note IH = "3.IH" [OF step [symmetric]]
  show ?case
  proof (cases consumed)
    case True
    with consumed have fa: "flag_args (token # next # rest) = (token, next) # flag_args rest"
      and ne: "next \<noteq> []" by simp_all
    from True IH have IH': "method (result (curl_loop st' rest)) =
     (case explicit_methods (flag_args rest) of
        [] \<Rightarrow> if \<not> explicitMethod st' \<and> data_given (flag_args rest) then ''POST''
              else method (result st')
      | m # ms \<Rightarrow> toUpperCase (last (m # ms)))" by simp
    show ?thesis
    proof (cases "is_method_flag token")
      case True
      then show ?thesis using step \<open>consumed\<close> fa IH' m' e' ne
        by (cases "explicit_methods (flag_args rest)")
           (simp_all add: explicit_methods_def data_given_def)
    next
      case False
      then show ?thesis using step \<open>consumed\<close> fa IH' m' e' ne
        by (cases "explicit_methods (flag_args rest)")
           (auto simp: explicit_methods_def data_given_def)
    qed
  next
    case False
    with consumed have fa: "flag_args (token # next # rest) = flag_args (next # rest)"
      by auto
    from False IH have IH': "method (result (curl_loop st' (next # rest))) =
     (case explicit_methods (flag_args (next # rest)) of
        [] \<Rightarrow> if \<not> explicitMethod st' \<and> data_given (flag_args (next # rest)) then ''POST''
              else method (result st')
      | m # ms \<Rightarrow> toUpperCase (last (m # ms)))" by simp
    from False consumed have eqs: "method (result st') = method (result st)"
      "explicitMethod st' = explicitMethod st"
      using m' e' is_method_flag_takes sets_body_takes by auto
    have "curl_loop st (token # next # rest) = curl_loop st' (next # rest)"
      using step False by simp
    then show ?thesis
      by (simp only: IH' fa eqs)
  qed
qed


lemma curl_step_body:
  "body (result (fst (curl_step st t nx))) =
     (case nx of
        None \<Rightarrow> body (result st)
      | Some n \<Rightarrow>
          if n = [] then body (result st)
          else if is_data_flag t then Some n
          else if t = ''--data-urlencode'' then
            (case body (result st) of
               Some b \<Rightarrow> if b \<noteq> [] then Some (b @ ''&'' @ n) else Some n
             | None \<Rightarrow> Some n)
          else body (result st))"
  by (cases nx) (auto simp: curl_step_def is_data_flag_def Let_def set_header_def split: prod.splits option.splits)

lemma curl_loop_body:
  "(filter sets_body (flag_args toks) = [] \<longrightarrow>
      body (result (curl_loop st toks)) = body (result st))
   \<and> (last_body_flag (flag_args toks) = Some (d, x) \<and> is_data_flag d \<longrightarrow>
      body (result (curl_loop st toks)) = Some x)"
proof (induction st toks rule: curl_loop.induct)
  case (1 st)
  then show ?case by (simp add: last_body_flag_def)
next
  case (2 st token)
  then show ?case by (simp add: last_body_flag_def curl_step_body)
next
  case (3 st token "next" rest)
  obtain st' consumed where step: "curl_step st token (Some next) = (st', consumed)"
    by (cases "curl_step st token (Some next)")
  have consumed: "consumed \<longleftrightarrow> takes_argument token \<and> next \<noteq> []"
    using curl_step_consumed [of st token "next"] step by simp
  have b': "body (result st') =
      (if next = [] then body (result st)
       else if is_data_flag token then Some next
       else if token = ''--data-urlencode'' then
         (case body (result st) of
            Some b \<Rightarrow> if b \<noteq> [] then Some (b @ ''&'' @ next) else Some next
          | None \<Rightarrow> Some next)
       else body (result st))"
    using curl_step_body [of st token "Some next"] step by simp
  note IH = "3.IH" [OF step [symmetric]]
  show ?case
  proof (cases consumed)
    case True
    with consumed have fa: "flag_args (token # next # rest) = (token, next) # flag_args rest"
      and ne: "next \<noteq> []" by simp_all
    have loop: "curl_loop st (token # next # rest) = curl_loop st' rest"
      using step True by simp
    from True IH have IH1: "filter sets_body (flag_args rest) = [] \<Longrightarrow>
        body (result (curl_loop st' rest)) = body (result st')"
      and IH2: "last_body_flag (flag_args rest) = Some (d, x) \<Longrightarrow> is_data_flag d \<Longrightarrow>
        body (result (curl_loop st' rest)) = Some x"
      by simp_all
    show ?thesis
    proof (cases "filter sets_body (flag_args rest)")
      case Nil
      then have lb: "last_body_flag ((token, next) # flag_args rest) =
          (if sets_body (token, next) then Some (token, next) else None)"
        by (simp add: last_body_flag_def)
      show ?thesis
        unfolding loop fa lb using IH1 [OF Nil] Nil b' ne
        by (auto simp: sets_body_def)
    next
      case (Cons p ps)
      then have lb: "last_body_flag ((token, next) # flag_args rest) =
          last_body_flag (flag_args rest)"
        by (simp add: last_body_flag_def)
      show ?thesis
        unfolding loop fa lb using IH2 Cons by auto
    qed
  next
    case False
    with consumed have fa: "flag_args (token # next # rest) = flag_args (next # rest)"
      by auto
    have loop: "curl_loop st (token # next # rest) = curl_loop st' (next # rest)"
      using step False by simp
    from False consumed have eqs: "body (result st') = body (result st)"
      using b' by (auto simp: is_data_flag_def takes_argument_def)
    from False IH show ?thesis
      unfolding loop fa by (simp add: eqs)
  qed
qed

text \<open>
  Claim C5, as amended. The flags of a command and their arguments are paired as the
  single left-to-right pass of \<open>parseCurl\<close> over the tokens pairs them (\<open>flag_args\<close>): a
  flag that takes a value takes the next token as its argument, whatever that token is,
  and an empty quoted argument gives no token. With this pairing, for every input, the
  method of the result is the upper-cased argument of the last method flag when there is
  a method flag, wherever it stands; without a method flag it is \<open>POST\<close> when a data
  flag (or the url-encode data flag) is given and \<open>GET\<close> otherwise. The body is the
  argument of the last data flag, verbatim, when no url-encode data flag comes after it.
  \<open>curl URL -d 'x'\<close> gives \<open>POST\<close> and \<open>curl -X PUT URL -d 'x'\<close> gives \<open>PUT\<close>.
\<close>

theorem data_flag_method:
  "method (parseCurl input) =
     (case explicit_methods (flag_args (curl_tokens input)) of
        [] \<Rightarrow> if data_given (flag_args (curl_tokens input)) then ''POST'' else ''GET''
      | m # ms \<Rightarrow> toUpperCase (last (m # ms)))
   \<and> (last_body_flag (flag_args (curl_tokens input)) = Some (d, x) \<and> is_data_flag d \<longrightarrow>
        body (parseCurl input) = Some x)
   \<and> method (parseCurl (''curl http://example.com -d '' @ [squote] @ ''x'' @ [squote])) = ''POST''
   \<and> method (parseCurl (''curl -X PUT http://example.com -d '' @ [squote] @ ''x'' @ [squote])) = ''PUT''"
proof (intro conjI)
  show "method (parseCurl input) =
     (case explicit_methods (flag_args (curl_tokens input)) of
        [] \<Rightarrow> if data_given (flag_args (curl_tokens input)) then ''POST'' else ''GET''
      | m # ms \<Rightarrow> toUpperCase (last (m # ms)))"
    unfolding parseCurl_def curl_loop_method by (simp add: new_request_def split: list.splits)
  show "last_body_flag (flag_args (curl_tokens input)) = Some (d, x) \<and> is_data_flag d \<longrightarrow>
        body (parseCurl input) = Some x"
    unfolding parseCurl_def using curl_loop_body by blast
  show "method (parseCurl (''curl http://example.com -d '' @ [squote] @ ''x'' @ [squote])) = ''POST''"
    by (simp add: curl_eval)
  show "method (parseCurl (''curl -X PUT http://example.com -d '' @ [squote] @ ''x'' @ [squote])) = ''PUT''"
    by (simp add: curl_eval)
qed

lemmas flags_eval = flag_args.simps takes_argument_def explicit_methods_def data_given_def
  sets_body_def is_data_flag_def is_method_flag_def last_body_flag_def

theorem data_flag_method_witness:
  "last_body_flag (flag_args (curl_tokens ''curl -d x http://example.com -X put'')) = Some (''-d'', ''x'')
   \<and> is_data_flag ''-d''
   \<and> explicit_methods (flag_args (curl_tokens ''curl -d x http://example.com -X put'')) = [''put'']
   \<and> method (parseCurl ''curl -d x http://example.com -X put'') = ''PUT''
   \<and> body (parseCurl ''curl -d x http://example.com -X put'') = Some ''x''"
  using data_flag_method [of "''curl -d x http://example.com -X put''" "''-d''" "''x''"]
  by (simp add: curl_eval flags_eval)

text \<open>
  Claim C5 as stated (every command, the flags as they are written in it) fails when a
  data flag has the empty argument. In \<open>curl -d '' -X put http://x\<close> a method flag
  appears, yet the tokenizer keeps no token for \<open>''\<close>, the data flag takes \<open>-X\<close> as its
  argument, and the result has method \<open>POST\<close> and body \<open>-X\<close>. In
  \<open>curl -X PUT -d '' http://x\<close> the body is not the argument of the data flag: the URL
  becomes the body and the URL of the result is empty.
\<close>

theorem data_flag_method_counterexample:
  "curl_tokens (''curl -d '' @ [squote, squote] @ '' -X put http://x'') =
     [''-d'', ''-X'', ''put'', ''http://x'']
   \<and> method (parseCurl (''curl -d '' @ [squote, squote] @ '' -X put http://x'')) = ''POST''
   \<and> body (parseCurl (''curl -d '' @ [squote, squote] @ '' -X put http://x'')) = Some ''-X''
   \<and> curl_tokens (''curl -X PUT -d '' @ [squote, squote] @ '' http://x'') =
     [''-X'', ''PUT'', ''-d'', ''http://x'']
   \<and> body (parseCurl (''curl -X PUT -d '' @ [squote, squote] @ '' http://x'')) = Some ''http://x''
   \<and> url (parseCurl (''curl -X PUT -d '' @ [squote, squote] @ '' http://x'')) = []"
  by (simp add: curl_eval)

section \<open>Generating a command and parsing it again\<close>

lemma rev_upt_Suc: "rev [0..<Suc n] = n # rev [0..<n]"
  by simp

lemma cont_match_hit:
  "rx_match re_continuation (c, backslash # newline # cs) =
     (c, dropWhile isSpace cs) # map (\<lambda>k. (c, drop k cs)) (rev [0..<length (takeWhile isSpace cs)])"
  by (simp add: re_continuation_def dropWhile_eq_drop rev_upt_Suc del: upt_Suc)

lemma cont_match_miss:
  "\<not> (x = backslash \<and> take 1 cs = [newline]) \<Longrightarrow> rx_match re_continuation (c, x # cs) = []"
  by (cases cs) (auto simp: re_continuation_def)

lemma cont_match_Nil: "rx_match re_continuation (c, []) = []"
  by (simp add: re_continuation_def)

lemma replace_cont_Nil: "rx_replace_all re_continuation rep [] = []"
  by (simp add: rx_replace_all.simps cont_match_Nil)

lemma replace_cont_hit:
  "rx_replace_all re_continuation rep (backslash # newline # cs) =
     rep @ rx_replace_all re_continuation rep (dropWhile isSpace cs)"
proof -
  have "length (dropWhile isSpace cs) \<le> length cs"
    by (simp add: length_dropWhile_le)
  then have "take (Suc (Suc (length cs)) - length (dropWhile isSpace cs)) (backslash # newline # cs) \<noteq> []"
    by (cases "Suc (Suc (length cs)) - length (dropWhile isSpace cs)") auto
  then show ?thesis
    by (subst rx_replace_all.simps) (simp add: cont_match_hit del: upt_Suc)
qed

lemma replace_cont_miss:
  assumes "\<not> (x = backslash \<and> take 1 cs = [newline])"
  shows "rx_replace_all re_continuation rep (x # cs) = x # rx_replace_all re_continuation rep cs"
proof -
  have s: "rx_search re_continuation (x # cs) =
      map_option (\<lambda>m. m\<lparr>m_before := x # m_before m\<rparr>) (rx_search re_continuation cs)"
    using assms by (simp add: cont_match_miss)
  have L: "rx_replace_all re_continuation rep (x # cs) =
     (case rx_search re_continuation (x # cs) of
        None \<Rightarrow> x # cs
      | Some m \<Rightarrow>
          m_before m @ rep @
          (if m_text m = [] then
             (case m_after m of [] \<Rightarrow> [] | y # ys \<Rightarrow> y # rx_replace_all re_continuation rep ys)
           else rx_replace_all re_continuation rep (m_after m)))"
    by (rule rx_replace_all.simps)
  have R: "rx_replace_all re_continuation rep cs =
     (case rx_search re_continuation cs of
        None \<Rightarrow> cs
      | Some m \<Rightarrow>
          m_before m @ rep @
          (if m_text m = [] then
             (case m_after m of [] \<Rightarrow> [] | y # ys \<Rightarrow> y # rx_replace_all re_continuation rep ys)
           else rx_replace_all re_continuation rep (m_after m)))"
    by (rule rx_replace_all.simps)
  show ?thesis
  proof (cases "rx_search re_continuation cs")
    case None
    then show ?thesis by (simp only: L R s) simp
  next
    case (Some m)
    then show ?thesis by (simp only: L R s) simp
  qed
qed


lemma replace_cont_text:
  "\<not> str_includes u [backslash, newline] \<Longrightarrow> take 1 t \<noteq> [newline] \<Longrightarrow>
   rx_replace_all re_continuation rep (u @ t) = u @ rx_replace_all re_continuation rep t"
proof (induction u)
  case Nil
  then show ?case by simp
next
  case (Cons c u)
  from Cons.prems have 1: "\<not> startsWith (c # u) [backslash, newline]"
    and 2: "\<not> str_includes u [backslash, newline]" by simp_all
  from 1 Cons.prems(2) have "\<not> (c = backslash \<and> take 1 (u @ t) = [newline])"
    by (cases u) (auto simp: startsWith_def)
  then have "rx_replace_all re_continuation rep (c # u @ t) =
      c # rx_replace_all re_continuation rep (u @ t)"
    by (rule replace_cont_miss)
  with Cons.IH [OF 2 Cons.prems(2)] show ?case by simp
qed

lemma trim_id: "s \<noteq> [] \<Longrightarrow> \<not> isSpace (hd s) \<Longrightarrow> \<not> isSpace (last s) \<Longrightarrow> trim s = s"
proof -
  assume a: "s \<noteq> []" "\<not> isSpace (hd s)" "\<not> isSpace (last s)"
  then have 1: "dropWhile isSpace s = s" by (cases s) simp_all
  from a have "dropWhile isSpace (rev s) = rev s"
    by (cases "rev s") (simp_all add: last_rev [symmetric] hd_rev)
  with 1 show ?thesis by (simp add: trim_def)
qed

lemma toCurl_simple:
  assumes "method req = ''GET''" "headers req = []" "\<not> truthy (body req)" "auth req = None"
  shows "toCurl req = ''curl'' @ [space, backslash, newline, space, space] @ squote # url req @
           squote # (if insecure req then [space, backslash, newline, space, space] @ ''-k'' else [])"
  using assms by (cases "body req") (simp_all add: toCurl_def curl_parts_def)

lemma normalize_simple:
  assumes "\<not> str_includes u [backslash, newline]"
  shows "normalize (''curl'' @ [space, backslash, newline, space, space] @ squote # u @
           squote # (if k then [space, backslash, newline, space, space] @ ''-k'' else [])) =
         ''curl  '' @ squote # u @ squote # (if k then ''  -k'' else [])"
proof -
  have tail: "rx_replace_all re_continuation '' ''
          (squote # (if k then [space, backslash, newline, space, space] @ ''-k'' else [])) =
        squote # (if k then ''  -k'' else [])"
    by (simp add: replace_cont_miss replace_cont_hit replace_cont_Nil isSpace_def)
  have mid: "rx_replace_all re_continuation '' ''
          (u @ squote # (if k then [space, backslash, newline, space, space] @ ''-k'' else [])) =
        u @ squote # (if k then ''  -k'' else [])"
    using replace_cont_text [OF assms, of "squote # (if k then [space, backslash, newline, space, space] @ ''-k'' else [])" "'' ''"]
    by (simp only: tail) simp
  have "rx_replace_all re_continuation '' ''
          (''curl'' @ [space, backslash, newline, space, space] @ squote # u @
           squote # (if k then [space, backslash, newline, space, space] @ ''-k'' else [])) =
        ''curl  '' @ squote # u @ squote # (if k then ''  -k'' else [])"
    using mid by (simp add: replace_cont_miss replace_cont_hit isSpace_def)
  moreover have "trim (''curl  '' @ squote # u @ squote # (if k then ''  -k'' else [])) =
      ''curl  '' @ squote # u @ squote # (if k then ''  -k'' else [])"
    by (rule trim_id) (simp_all add: isSpace_def)
  ultimately show ?thesis by (simp only: normalize_def)
qed

lemma strip_curl_simple:
  "rx_replace_at_start re_curl []
     (CHR ''c'' # CHR ''u'' # CHR ''r'' # CHR ''l'' # space # space # squote # t) = squote # t"
  by (simp add: rx_replace_at_start_def re_curl_def isSpace_def)

lemma tokenize_simple:
  assumes "squote \<notin> set u"
  shows "tokenize (squote # u @ squote # (if k then ''  -k'' else [])) =
           (if u = [] then [] else [u]) @ (if k then [''-k''] else [])"
proof -
  have 1: "tok_step tok_init squote = tok_init\<lparr>inSingle := True\<rparr>"
    by (simp add: tok_step_def tok_init_def)
  have 2: "tok_loop (tok_init\<lparr>inSingle := True\<rparr>) u = tok_init\<lparr>inSingle := True, current := u\<rparr>"
    using tok_loop_in_single [of "tok_init\<lparr>inSingle := True\<rparr>" u] assms
    by (simp add: tok_init_def)
  have 3: "tok_step (tok_init\<lparr>inSingle := True, current := u\<rparr>) squote = tok_init\<lparr>current := u\<rparr>"
    by (simp add: tok_step_def tok_init_def)
  have "tok_loop tok_init (squote # u @ squote # (if k then ''  -k'' else [])) =
      tok_loop (tok_init\<lparr>current := u\<rparr>) (if k then ''  -k'' else [])"
    by (simp add: 1 2 3 tok_loop_append)
  then show ?thesis
    by (simp add: tokenize_def tok_finish_def tok_step_def tok_init_def)
qed

lemma curl_step_url:
  "startsWith tok ''http'' \<or> startsWith tok ''/'' \<Longrightarrow>
   curl_step st tok nx = (st\<lparr>result := (result st)\<lparr>url := tok\<rparr>\<rparr>, False)"
  by (cases tok) (auto simp: curl_step_def startsWith_def)


lemma curl_tokens_simple:
  assumes "method req = ''GET''" "headers req = []" "\<not> truthy (body req)" "auth req = None"
    and "squote \<notin> set (url req)" "\<not> str_includes (url req) [backslash, newline]"
  shows "curl_tokens (toCurl req) =
           (if url req = [] then [] else [url req]) @ (if insecure req then [''-k''] else [])"
  unfolding curl_tokens_def toCurl_simple [OF assms(1-4)] normalize_simple [OF assms(6)]
  using tokenize_simple [OF assms(5), of "insecure req"]
  by (simp add: strip_curl_simple)

text \<open>
  Claim C3, as amended. For a record with method \<open>GET\<close>, no headers, no body and no
  auth, whose URL is empty or starts with \<open>http\<close> or \<open>/\<close> and contains neither a single
  quote nor a backslash followed by a newline, parsing the command that \<open>toCurl\<close> generates
  gives the URL and the method of the record.
\<close>

theorem curl_round_trip:
  assumes "method req = ''GET''" "headers req = []" "\<not> truthy (body req)" "auth req = None"
    and "url req = [] \<or> startsWith (url req) ''http'' \<or> startsWith (url req) ''/''"
    and "squote \<notin> set (url req)" "\<not> str_includes (url req) [backslash, newline]"
  shows "url (parseCurl (toCurl req)) = url req \<and> method (parseCurl (toCurl req)) = ''GET''"
proof (cases "url req = []")
  case True
  then show ?thesis
    unfolding parseCurl_def curl_tokens_simple [OF assms(1-4) assms(6,7)]
    by (simp add: curl_step_def new_request_def)
next
  case False
  with assms(5) have u: "startsWith (url req) ''http'' \<or> startsWith (url req) ''/''"
    by simp
  show ?thesis
    unfolding parseCurl_def curl_tokens_simple [OF assms(1-4) assms(6,7)]
    using False by (simp add: curl_step_url [OF u] new_request_def) (simp add: curl_step_def)
qed

theorem curl_round_trip_witness:
  "method (new_request\<lparr>url := ''https://api.example.com/v1?q=a b'', insecure := True\<rparr>) = ''GET''
   \<and> headers (new_request\<lparr>url := ''https://api.example.com/v1?q=a b'', insecure := True\<rparr>) = []
   \<and> \<not> truthy (body (new_request\<lparr>url := ''https://api.example.com/v1?q=a b'', insecure := True\<rparr>))
   \<and> auth (new_request\<lparr>url := ''https://api.example.com/v1?q=a b'', insecure := True\<rparr>) = None
   \<and> startsWith ''https://api.example.com/v1?q=a b'' ''http''
   \<and> squote \<notin> set ''https://api.example.com/v1?q=a b''
   \<and> \<not> str_includes ''https://api.example.com/v1?q=a b'' [backslash, newline]
   \<and> url (parseCurl (toCurl (new_request\<lparr>url := ''https://api.example.com/v1?q=a b'', insecure := True\<rparr>)))
       = ''https://api.example.com/v1?q=a b''
   \<and> method (parseCurl (toCurl (new_request\<lparr>url := ''https://api.example.com/v1?q=a b'', insecure := True\<rparr>)))
       = ''GET''"
  using curl_round_trip [of "new_request\<lparr>url := ''https://api.example.com/v1?q=a b'', insecure := True\<rparr>"]
  by (simp add: new_request_def startsWith_def)

text \<open>
  Claim C3 as stated (every record with method \<open>GET\<close>, no headers, no body and no auth)
  fails for the URL \<open>example.com\<close>: the parser takes a bare token as the URL only when
  it starts with \<open>http\<close> or \<open>/\<close>, so the URL of the result is empty.
\<close>

theorem curl_round_trip_counterexample:
  "method (new_request\<lparr>url := ''example.com''\<rparr>) = ''GET''
   \<and> headers (new_request\<lparr>url := ''example.com''\<rparr>) = []
   \<and> body (new_request\<lparr>url := ''example.com''\<rparr>) = None
   \<and> auth (new_request\<lparr>url := ''example.com''\<rparr>) = None
   \<and> toCurl (new_request\<lparr>url := ''example.com''\<rparr>) =
        ''curl '' @ [backslash, newline] @ ''  '' @ [squote] @ ''example.com'' @ [squote]
   \<and> url (parseCurl (toCurl (new_request\<lparr>url := ''example.com''\<rparr>))) = []
   \<and> url (parseCurl (toCurl (new_request\<lparr>url := ''example.com''\<rparr>)))
       \<noteq> url (new_request\<lparr>url := ''example.com''\<rparr>)"
  by (simp add: toCurl_def curl_parts_def curl_eval)

section \<open>The code generators\<close>

lemma str_join_append:
  "xs \<noteq> [] \<Longrightarrow> ys \<noteq> [] \<Longrightarrow> str_join (xs @ ys) sep = str_join xs sep @ sep @ str_join ys sep"
proof (induction xs sep rule: str_join.induct)
  case (1 sep)
  then show ?case by simp
next
  case (2 p sep)
  then show ?case by (cases ys) simp_all
next
  case (3 p q ps sep)
  then show ?case by simp
qed

lemma escape_quotes_Nil: "escape_quotes [] = []"
  by (simp add: escape_quotes_def rx_replace_all.simps)

lemma escape_quotes_Cons:
  "escape_quotes (c # cs) = (if c = squote then [backslash, squote] else [c]) @ escape_quotes cs"
proof -
  have L: "rx_replace_all (Lit [squote]) [backslash, squote] (c # cs) =
     (case rx_search (Lit [squote]) (c # cs) of
        None \<Rightarrow> c # cs
      | Some m \<Rightarrow>
          m_before m @ [backslash, squote] @
          (if m_text m = [] then
             (case m_after m of [] \<Rightarrow> []
              | y # ys \<Rightarrow> y # rx_replace_all (Lit [squote]) [backslash, squote] ys)
           else rx_replace_all (Lit [squote]) [backslash, squote] (m_after m)))"
    by (rule rx_replace_all.simps)
  have R: "rx_replace_all (Lit [squote]) [backslash, squote] cs =
     (case rx_search (Lit [squote]) cs of
        None \<Rightarrow> cs
      | Some m \<Rightarrow>
          m_before m @ [backslash, squote] @
          (if m_text m = [] then
             (case m_after m of [] \<Rightarrow> []
              | y # ys \<Rightarrow> y # rx_replace_all (Lit [squote]) [backslash, squote] ys)
           else rx_replace_all (Lit [squote]) [backslash, squote] (m_after m)))"
    by (rule rx_replace_all.simps)
  show ?thesis
  proof (cases "c = squote")
    case True
    then show ?thesis unfolding escape_quotes_def by (subst L) simp
  next
    case False
    then have s: "rx_search (Lit [squote]) (c # cs) =
        map_option (\<lambda>m. m\<lparr>m_before := c # m_before m\<rparr>) (rx_search (Lit [squote]) cs)"
      by simp
    show ?thesis
      unfolding escape_quotes_def using False
      by (cases "rx_search (Lit [squote]) cs") (simp_all only: L R s, simp_all)
  qed
qed

lemma escape_quotes_eq:
  "escape_quotes s = concat (map (\<lambda>c. if c = squote then [backslash, squote] else [c]) s)"
  by (induction s) (simp_all add: escape_quotes_Nil escape_quotes_Cons)


lemma fetch_lines_body:
  assumes "body req = Some b" "b \<noteq> []"
  shows "\<exists>pre. pre \<noteq> [] \<and> fetch_lines JSON_parse req =
           pre @ [(case JSON_parse b of
                     Some j \<Rightarrow> ''  body: JSON.stringify('' @ b @ ''),''
                   | None \<Rightarrow> ''  body: '' @ [squote] @ escape_quotes b @ [squote] @ '',''),
                  ''});'', [], ''const data = await response.json();'', ''console.log(data);'']"
proof -
  define a where "a = (case auth req of
            Some a \<Rightarrow>
              [''const credentials = btoa('' @ [squote] @ user a @ '':'' @ pass a @ [squote] @ '');'', []]
          | None \<Rightarrow> [])"
  define hs where "hs = (if auth req \<noteq> None
                           then set_prop ''Authorization''
                                  (''${'' @ [backtick] @ ''Basic ${credentials}'' @ [backtick] @ ''}'')
                                  (headers req)
                           else headers req)"
  define h where "h = (if length hs > 0
                    then [''  headers: {''] @ map (fetch_header_line req) hs @ [''  },'']
                    else [])"
  have "fetch_lines JSON_parse req =
      (a @ [''const response = await fetch('' @ [squote] @ url req @ [squote] @ '', {'',
               ''  method: '' @ [squote] @ method req @ [squote] @ '',''] @ h)
      @ [(case JSON_parse b of
                     Some j \<Rightarrow> ''  body: JSON.stringify('' @ b @ ''),''
                   | None \<Rightarrow> ''  body: '' @ [squote] @ escape_quotes b @ [squote] @ '',''),
                  ''});'', [], ''const data = await response.json();'', ''console.log(data);'']"
    using assms unfolding fetch_lines_def a_def h_def hs_def Let_def
    by (simp split: option.splits)
  then show ?thesis by blast
qed

lemma axios_config_body:
  assumes "body req = Some b" "b \<noteq> []"
  shows "\<exists>pre. pre \<noteq> [] \<and> axios_config JSON_parse req =
           pre @ [(case JSON_parse b of
                     Some j \<Rightarrow> ''  data: '' @ b @ '',''
                   | None \<Rightarrow> ''  data: '' @ [squote] @ escape_quotes b @ [squote] @ '','')]"
proof -
  have "axios_config JSON_parse req =
     ([''  method: '' @ [squote] @ toLowerCase (method req) @ [squote] @ '','',
      ''  url: '' @ [squote] @ url req @ [squote] @ '','']
     @ (if length (headers req) > 0
        then [''  headers: {''] @ map header_line (headers req) @ [''  },'']
        else [])
     @ (case auth req of
          Some a \<Rightarrow>
            [''  auth: {'',
             ''    username: '' @ [squote] @ user a @ [squote] @ '','',
             ''    password: '' @ [squote] @ pass a @ [squote] @ '','',
             ''  },'']
        | None \<Rightarrow> []))
     @ [(case JSON_parse b of
                     Some j \<Rightarrow> ''  data: '' @ b @ '',''
                   | None \<Rightarrow> ''  data: '' @ [squote] @ escape_quotes b @ [squote] @ '','')]"
    using assms unfolding axios_config_def by (simp split: option.splits)
  then show ?thesis by blast
qed

lemma nonempty_body_emitted:
  assumes "body req = Some b" "b \<noteq> []"
  shows "(JSON_parse b \<noteq> None \<longrightarrow>
           (\<exists>pre. toFetch JSON_parse req =
              pre @ [newline] @ ''  body: JSON.stringify('' @ b @ ''),'' @ [newline] @ ''});''
              @ [newline, newline] @ ''const data = await response.json();''
              @ [newline] @ ''console.log(data);'')
         \<and> (\<exists>pre. toAxios JSON_parse req =
              pre @ [newline] @ ''  data: '' @ b @ '','' @ [newline] @ ''});''
              @ [newline, newline] @ ''console.log(data);''))
       \<and> (JSON_parse b = None \<longrightarrow>
           (\<exists>pre. toFetch JSON_parse req =
              pre @ [newline] @ ''  body: '' @ [squote] @ escape_quotes b @ [squote] @ '','' @ [newline] @ ''});''
              @ [newline, newline] @ ''const data = await response.json();''
              @ [newline] @ ''console.log(data);'')
         \<and> (\<exists>pre. toAxios JSON_parse req =
              pre @ [newline] @ ''  data: '' @ [squote] @ escape_quotes b @ [squote] @ '','' @ [newline] @ ''});''
              @ [newline, newline] @ ''console.log(data);''))
       \<and> escape_quotes b = concat (map (\<lambda>c. if c = squote then [backslash, squote] else [c]) b)"
proof -
  from fetch_lines_body [OF assms, of JSON_parse] obtain fpre where
    fpre: "fpre \<noteq> []" "fetch_lines JSON_parse req =
           fpre @ [(case JSON_parse b of
                     Some j \<Rightarrow> ''  body: JSON.stringify('' @ b @ ''),''
                   | None \<Rightarrow> ''  body: '' @ [squote] @ escape_quotes b @ [squote] @ '',''),
                  ''});'', [], ''const data = await response.json();'', ''console.log(data);'']"
    by blast
  from axios_config_body [OF assms, of JSON_parse] obtain apre where
    apre: "apre \<noteq> []" "axios_config JSON_parse req =
           apre @ [(case JSON_parse b of
                     Some j \<Rightarrow> ''  data: '' @ b @ '',''
                   | None \<Rightarrow> ''  data: '' @ [squote] @ escape_quotes b @ [squote] @ '','')]"
    by blast
  have F: "toFetch JSON_parse req = str_join fpre [newline] @ [newline] @
      (case JSON_parse b of
                     Some j \<Rightarrow> ''  body: JSON.stringify('' @ b @ ''),''
                   | None \<Rightarrow> ''  body: '' @ [squote] @ escape_quotes b @ [squote] @ '','')
      @ [newline] @ ''});'' @ [newline, newline] @ ''const data = await response.json();''
              @ [newline] @ ''console.log(data);''"
    unfolding toFetch_def fpre(2) using fpre(1) by (simp add: str_join_append)
  define P where "P = ''import axios from '' @ [squote] @ ''axios'' @ [squote] @ '';'' @ [newline, newline] @
       ''const { data } = await axios({'' @ [newline] @ str_join apre [newline]"
  have A: "toAxios JSON_parse req = P @ [newline] @
      (case JSON_parse b of
                     Some j \<Rightarrow> ''  data: '' @ b @ '',''
                   | None \<Rightarrow> ''  data: '' @ [squote] @ escape_quotes b @ [squote] @ '','')
      @ [newline] @ ''});'' @ [newline, newline] @ ''console.log(data);''"
    unfolding toAxios_def apre(2) P_def using apre(1) assms by (simp add: str_join_append)
  show ?thesis
  proof (intro conjI impI)
    assume "JSON_parse b \<noteq> None"
    then obtain j where j: "JSON_parse b = Some j" by blast
    show "\<exists>pre. toFetch JSON_parse req =
              pre @ [newline] @ ''  body: JSON.stringify('' @ b @ ''),'' @ [newline] @ ''});''
              @ [newline, newline] @ ''const data = await response.json();''
              @ [newline] @ ''console.log(data);''"
      unfolding F j by (intro exI [of _ "str_join fpre [newline]"]) simp
    show "\<exists>pre. toAxios JSON_parse req =
              pre @ [newline] @ ''  data: '' @ b @ '','' @ [newline] @ ''});''
              @ [newline, newline] @ ''console.log(data);''"
      unfolding A j by (intro exI [of _ P]) simp
  next
    assume n: "JSON_parse b = None"
    show "\<exists>pre. toFetch JSON_parse req =
              pre @ [newline] @ ''  body: '' @ [squote] @ escape_quotes b @ [squote] @ '','' @ [newline] @ ''});''
              @ [newline, newline] @ ''const data = await response.json();''
              @ [newline] @ ''console.log(data);''"
      unfolding F n by (intro exI [of _ "str_join fpre [newline]"]) simp
    show "\<exists>pre. toAxios JSON_parse req =
              pre @ [newline] @ ''  data: '' @ [squote] @ escape_quotes b @ [squote] @ '','' @ [newline] @ ''});''
              @ [newline, newline] @ ''console.log(data);''"
      unfolding A n by (intro exI [of _ P]) simp
  next
    show "escape_quotes b = concat (map (\<lambda>c. if c = squote then [backslash, squote] else [c]) b)"
      by (rule escape_quotes_eq)
  qed
qed

lemma fetch_header_line_body:
  "fetch_header_line (req\<lparr>body := x\<rparr>) = fetch_header_line req"
  by (rule ext) (simp add: fetch_header_line_def)

lemma empty_body_not_emitted:
  assumes "body req = Some []"
  shows "toFetch JSON_parse req = toFetch JSON_parse (req\<lparr>body := None\<rparr>)"
    and "toAxios JSON_parse req = toAxios JSON_parse (req\<lparr>body := None\<rparr>)"
  using assms
  by (simp_all add: toFetch_def fetch_lines_def toAxios_def axios_config_def Let_def
      fetch_header_line_body)

text \<open>
  Claim C6, as amended. For a record with a non-empty body, both code-style generators
  emit the body on the line before the closing \<open>});\<close>: when the body parses as JSON, the
  text of the body itself, unquoted (inside \<open>JSON.stringify(...)\<close> for \<open>toFetch\<close>, after
  \<open>data:\<close> for \<open>toAxios\<close>); when it does not parse, a single-quoted literal with
  every single quote of the body preceded by a backslash. An empty body is not emitted:
  for a record whose body is the empty string both generators give the output they give
  for the same record without a body.
\<close>

theorem body_rendering:
  "(body req = Some b \<and> b \<noteq> [] \<longrightarrow>
     ((JSON_parse b \<noteq> None \<longrightarrow>
                (\<exists>pre. toFetch JSON_parse req =
                   pre @ [newline] @ ''  body: JSON.stringify('' @ b @ ''),'' @ [newline] @ ''});''
                   @ [newline, newline] @ ''const data = await response.json();''
                   @ [newline] @ ''console.log(data);'')
              \<and> (\<exists>pre. toAxios JSON_parse req =
                   pre @ [newline] @ ''  data: '' @ b @ '','' @ [newline] @ ''});''
                   @ [newline, newline] @ ''console.log(data);''))
            \<and> (JSON_parse b = None \<longrightarrow>
                (\<exists>pre. toFetch JSON_parse req =
                   pre @ [newline] @ ''  body: '' @ [squote] @ escape_quotes b @ [squote] @ '','' @ [newline] @ ''});''
                   @ [newline, newline] @ ''const data = await response.json();''
                   @ [newline] @ ''console.log(data);'')
              \<and> (\<exists>pre. toAxios JSON_parse req =
                   pre @ [newline] @ ''  data: '' @ [squote] @ escape_quotes b @ [squote] @ '','' @ [newline] @ ''});''
                   @ [newline, newline] @ ''console.log(data);''))
            \<and> escape_quotes b = concat (map (\<lambda>c. if c = squote then [backslash, squote] else [c]) b)))
   \<and> (body req = Some [] \<longrightarrow>
        toFetch JSON_parse req = toFetch JSON_parse (req\<lparr>body := None\<rparr>)
        \<and> toAxios JSON_parse req = toAxios JSON_parse (req\<lparr>body := None\<rparr>))"
  using nonempty_body_emitted [of req b JSON_parse]
    empty_body_not_emitted [of req JSON_parse]
  by blast

lemmas gen_eval = toFetch_def fetch_lines_def toAxios_def axios_config_def new_request_def
  toLowerCase_def lowerChar_def Let_def

theorem body_rendering_witness:
  "body (new_request\<lparr>method := ''POST'', url := ''http://x'',
           body := Some (''{'' @ [dquote] @ ''a'' @ [dquote] @ '':1}'')\<rparr>)
     = Some (''{'' @ [dquote] @ ''a'' @ [dquote] @ '':1}'')
   \<and> ''{'' @ [dquote] @ ''a'' @ [dquote] @ '':1}'' \<noteq> []
   \<and> (\<lambda>s. if s = ''{'' @ [dquote] @ ''a'' @ [dquote] @ '':1}''
            then Some (JObject [(''a'', JNumber 1)]) else None)
         (''{'' @ [dquote] @ ''a'' @ [dquote] @ '':1}'') \<noteq> None
   \<and> toFetch (\<lambda>s. if s = ''{'' @ [dquote] @ ''a'' @ [dquote] @ '':1}''
                   then Some (JObject [(''a'', JNumber 1)]) else None)
         (new_request\<lparr>method := ''POST'', url := ''http://x'',
            body := Some (''{'' @ [dquote] @ ''a'' @ [dquote] @ '':1}'')\<rparr>)
       = ''const response = await fetch('' @ [squote] @ ''http://x'' @ [squote] @ '', {'' @ [newline]
         @ ''  method: '' @ [squote] @ ''POST'' @ [squote] @ '','' @ [newline]
         @ ''  body: JSON.stringify({'' @ [dquote] @ ''a'' @ [dquote] @ '':1}),'' @ [newline]
         @ ''});'' @ [newline, newline] @ ''const data = await response.json();'' @ [newline]
         @ ''console.log(data);''
   \<and> body (new_request\<lparr>body := Some ''notjson''\<rparr>) = Some ''notjson''
   \<and> ''notjson'' \<noteq> []
   \<and> (\<lambda>s. if s = ''{'' @ [dquote] @ ''a'' @ [dquote] @ '':1}''
            then Some (JObject [(''a'', JNumber 1)]) else None) ''notjson'' = None
   \<and> toAxios (\<lambda>s. if s = ''{'' @ [dquote] @ ''a'' @ [dquote] @ '':1}''
                   then Some (JObject [(''a'', JNumber 1)]) else None)
         (new_request\<lparr>body := Some ''notjson''\<rparr>)
       = ''import axios from '' @ [squote] @ ''axios'' @ [squote] @ '';'' @ [newline, newline]
         @ ''const { data } = await axios({'' @ [newline]
         @ ''  method: '' @ [squote] @ ''get'' @ [squote] @ '','' @ [newline]
         @ ''  url: '' @ [squote, squote] @ '','' @ [newline]
         @ ''  data: '' @ [squote] @ ''notjson'' @ [squote] @ '','' @ [newline]
         @ ''});'' @ [newline, newline] @ ''console.log(data);''
   \<and> body (new_request\<lparr>method := ''POST'', url := ''http://x'', body := Some []\<rparr>) = Some []
   \<and> toFetch (\<lambda>s. if s = ''{'' @ [dquote] @ ''a'' @ [dquote] @ '':1}''
            then Some (JObject [(''a'', JNumber 1)]) else None)
         (new_request\<lparr>method := ''POST'', url := ''http://x'', body := Some []\<rparr>)
       = toFetch (\<lambda>s. if s = ''{'' @ [dquote] @ ''a'' @ [dquote] @ '':1}''
            then Some (JObject [(''a'', JNumber 1)]) else None)
         (new_request\<lparr>method := ''POST'', url := ''http://x''\<rparr>)
   \<and> toAxios (\<lambda>s. if s = ''{'' @ [dquote] @ ''a'' @ [dquote] @ '':1}''
            then Some (JObject [(''a'', JNumber 1)]) else None)
         (new_request\<lparr>method := ''POST'', url := ''http://x'', body := Some []\<rparr>)
       = toAxios (\<lambda>s. if s = ''{'' @ [dquote] @ ''a'' @ [dquote] @ '':1}''
            then Some (JObject [(''a'', JNumber 1)]) else None)
         (new_request\<lparr>method := ''POST'', url := ''http://x''\<rparr>)"
  using
    body_rendering [of "new_request\<lparr>method := ''POST'', url := ''http://x'',
           body := Some (''{'' @ [dquote] @ ''a'' @ [dquote] @ '':1}'')\<rparr>"
        "''{'' @ [dquote] @ ''a'' @ [dquote] @ '':1}''"
        "\<lambda>s. if s = ''{'' @ [dquote] @ ''a'' @ [dquote] @ '':1}''
            then Some (JObject [(''a'', JNumber 1)]) else None"]
    body_rendering [of "new_request\<lparr>body := Some ''notjson''\<rparr>" "''notjson''"
        "\<lambda>s. if s = ''{'' @ [dquote] @ ''a'' @ [dquote] @ '':1}''
            then Some (JObject [(''a'', JNumber 1)]) else None"]
    body_rendering [of "new_request\<lparr>method := ''POST'', url := ''http://x'', body := Some []\<rparr>" "[]"
        "\<lambda>s. if s = ''{'' @ [dquote] @ ''a'' @ [dquote] @ '':1}''
            then Some (JObject [(''a'', JNumber 1)]) else None"]
  by (simp add: gen_eval escape_quotes_eq)

text \<open>
  Claim C6 as stated (every body of a record) fails for the empty body, which is not valid
  JSON text: both generators test \<open>req.body\<close> for truthiness and emit no body line at
  all for it.
\<close>

theorem body_rendering_counterexample:
  "body (new_request\<lparr>method := ''POST'', url := ''http://x'', body := Some []\<rparr>) = Some []
   \<and> (Map.empty :: string \<Rightarrow> json option) [] = None
   \<and> toFetch (Map.empty :: string \<Rightarrow> json option)
         (new_request\<lparr>method := ''POST'', url := ''http://x'', body := Some []\<rparr>)
       = ''const response = await fetch('' @ [squote] @ ''http://x'' @ [squote] @ '', {'' @ [newline]
         @ ''  method: '' @ [squote] @ ''POST'' @ [squote] @ '','' @ [newline]
         @ ''});'' @ [newline, newline] @ ''const data = await response.json();'' @ [newline]
         @ ''console.log(data);''
   \<and> \<not> str_includes (toFetch (Map.empty :: string \<Rightarrow> json option)
         (new_request\<lparr>method := ''POST'', url := ''http://x'', body := Some []\<rparr>)) ''body''
   \<and> toAxios (Map.empty :: string \<Rightarrow> json option)
         (new_request\<lparr>method := ''POST'', url := ''http://x'', body := Some []\<rparr>)
       = ''import axios from '' @ [squote] @ ''axios'' @ [squote] @ '';'' @ [newline, newline]
         @ ''const { data } = await axios({'' @ [newline]
         @ ''  method: '' @ [squote] @ ''post'' @ [squote] @ '','' @ [newline]
         @ ''  url: '' @ [squote] @ ''http://x'' @ [squote] @ '','' @ [newline]
         @ ''});'' @ [newline, newline] @ ''console.log(data);''
   \<and> \<not> str_includes (toAxios (Map.empty :: string \<Rightarrow> json option)
         (new_request\<lparr>method := ''POST'', url := ''http://x'', body := Some []\<rparr>)) ''data:''"
  by (simp add: gen_eval startsWith_def)

section \<open>The format detector\<close>

text \<open>
  Claim C7. The checks of the detector are tried in order and the first that holds
  decides: an input that starts, once trimmed, with \<open>curl\<close> and a space or a newline is a
  shell command whatever else it contains and whatever \<open>JSON.parse\<close> would do with it;
  otherwise the collection check decides when it holds; when \<open>JSON.parse\<close> fails (and
  whenever the collection check raises or does not hold) the fetch check, then the axios
  check follow, and the input is unrecognized when none holds.
\<close>

theorem detect_order:
  "(startsWith (trim input) ''curl '' \<or> startsWith (trim input) (''curl'' @ [newline]) \<longrightarrow>
      detectType JSON_parse input = Curl)
   \<and> (\<not> startsWith (trim input) ''curl '' \<and> \<not> startsWith (trim input) (''curl'' @ [newline])
        \<and> postman_check JSON_parse (trim input) = Inr True \<longrightarrow>
      detectType JSON_parse input = Postman)
   \<and> (\<not> startsWith (trim input) ''curl '' \<and> \<not> startsWith (trim input) (''curl'' @ [newline])
        \<and> JSON_parse (trim input) = None \<longrightarrow>
      postman_check JSON_parse (trim input) = Inl SyntaxError
      \<and> detectType JSON_parse input =
          (if str_includes (trim input) ''fetch('' \<or> str_includes (trim input) ''fetch ('' then Fetch
           else if str_includes (trim input) ''axios'' then Axios
           else Unknown))
   \<and> (\<not> startsWith (trim input) ''curl '' \<and> \<not> startsWith (trim input) (''curl'' @ [newline])
        \<and> postman_check JSON_parse (trim input) \<noteq> Inr True \<longrightarrow>
      detectType JSON_parse input =
          (if str_includes (trim input) ''fetch('' \<or> str_includes (trim input) ''fetch ('' then Fetch
           else if str_includes (trim input) ''axios'' then Axios
           else Unknown))"
proof (intro conjI impI)
  assume "startsWith (trim input) ''curl '' \<or> startsWith (trim input) (''curl'' @ [newline])"
  then show "detectType JSON_parse input = Curl"
    by (auto simp: detectType_def Let_def)
next
  assume "\<not> startsWith (trim input) ''curl '' \<and> \<not> startsWith (trim input) (''curl'' @ [newline])
        \<and> postman_check JSON_parse (trim input) = Inr True"
  then show "detectType JSON_parse input = Postman"
    by (simp add: detectType_def Let_def)
next
  assume "\<not> startsWith (trim input) ''curl '' \<and> \<not> startsWith (trim input) (''curl'' @ [newline])
        \<and> JSON_parse (trim input) = None"
  then show "postman_check JSON_parse (trim input) = Inl SyntaxError"
    by (simp add: postman_check_def)
next
  assume a: "\<not> startsWith (trim input) ''curl '' \<and> \<not> startsWith (trim input) (''curl'' @ [newline])
        \<and> JSON_parse (trim input) = None"
  then have "postman_check JSON_parse (trim input) = Inl SyntaxError"
    by (simp add: postman_check_def)
  with a show "detectType JSON_parse input =
          (if str_includes (trim input) ''fetch('' \<or> str_includes (trim input) ''fetch ('' then Fetch
           else if str_includes (trim input) ''axios'' then Axios
           else Unknown)"
    by (simp add: detectType_def Let_def)
next
  assume a: "\<not> startsWith (trim input) ''curl '' \<and> \<not> startsWith (trim input) (''curl'' @ [newline])
        \<and> postman_check JSON_parse (trim input) \<noteq> Inr True"
  then have "(case postman_check JSON_parse (trim input) of Inr b \<Rightarrow> b | Inl e \<Rightarrow> False) = False"
    by (cases "postman_check JSON_parse (trim input)") auto
  with a show "detectType JSON_parse input =
          (if str_includes (trim input) ''fetch('' \<or> str_includes (trim input) ''fetch ('' then Fetch
           else if str_includes (trim input) ''axios'' then Axios
           else Unknown)"
    by (simp add: detectType_def Let_def)
qed

lemmas detect_eval = detectType_def postman_check_def bind_def trim_def isSpace_def startsWith_def Let_def

theorem detect_order_witness:
  "startsWith (trim ''  curl http://axios.example/fetch('') ''curl ''
   \<and> str_includes (trim ''  curl http://axios.example/fetch('') ''axios''
   \<and> detectType (\<lambda>s. Some (JObject [(''info'', JObject []), (''item'', JArray [])]))
         ''  curl http://axios.example/fetch('' = Curl
   \<and> \<not> startsWith (trim ''{} fetch( axios'') ''curl ''
   \<and> \<not> startsWith (trim ''{} fetch( axios'') (''curl'' @ [newline])
   \<and> postman_check (\<lambda>s. Some (JObject [(''info'', JObject []), (''item'', JArray [])]))
         (trim ''{} fetch( axios'') = Inr True
   \<and> detectType (\<lambda>s. Some (JObject [(''info'', JObject []), (''item'', JArray [])]))
         ''{} fetch( axios'' = Postman
   \<and> \<not> startsWith (trim ''await fetch (u) // not axios'') ''curl ''
   \<and> \<not> startsWith (trim ''await fetch (u) // not axios'') (''curl'' @ [newline])
   \<and> (Map.empty :: string \<Rightarrow> json option) (trim ''await fetch (u) // not axios'') = None
   \<and> detectType Map.empty ''await fetch (u) // not axios'' = Fetch
   \<and> \<not> startsWith (trim ''null'') ''curl ''
   \<and> \<not> startsWith (trim ''null'') (''curl'' @ [newline])
   \<and> postman_check (\<lambda>s. Some JNull) (trim ''null'') = Inl TypeError
   \<and> postman_check (\<lambda>s. Some JNull) (trim ''null'') \<noteq> Inr True
   \<and> detectType (\<lambda>s. Some JNull) ''null'' = Unknown"
  using
    detect_order [of "''  curl http://axios.example/fetch(''"
      "\<lambda>s. Some (JObject [(''info'', JObject []), (''item'', JArray [])])"]
    detect_order [of "''{} fetch( axios''"
      "\<lambda>s. Some (JObject [(''info'', JObject []), (''item'', JArray [])])"]
    detect_order [of "''await fetch (u) // not axios''" Map.empty]
    detect_order [of "''null''" "\<lambda>s. Some JNull"]
  by (simp add: detect_eval)

section \<open>The code-snippet extractors\<close>

lemma rx_match_keeps:
  "(c', s') \<in> set (rx_match r (c, s)) \<Longrightarrow> c i \<noteq> None \<Longrightarrow> c' i \<noteq> None"
proof (induction r arbitrary: c s c' s')
  case (Seq a b)
  then obtain c1 s1 where 1: "(c1, s1) \<in> set (rx_match a (c, s))"
    and 2: "(c', s') \<in> set (rx_match b (c1, s1))"
    by auto
  from Seq.IH(1) [OF 1 Seq.prems(2)] Seq.IH(2) [OF 2] show ?case by blast
next
  case (Group j r)
  then obtain c1 where 1: "(c1, s') \<in> set (rx_match r (c, s))"
    and 2: "c' = c1(j \<mapsto> take (length s - length s') s)"
    by auto
  from Group.IH [OF 1 Group.prems(2)] 2 show ?case by simp
qed (auto split: if_splits list.splits)

lemma rx_match_binds:
  "binds i r \<Longrightarrow> (c', s') \<in> set (rx_match r (c, s)) \<Longrightarrow> c' i \<noteq> None"
proof (induction r arbitrary: c s c' s')
  case (Seq a b)
  from Seq.prems(2) obtain c1 s1 where 1: "(c1, s1) \<in> set (rx_match a (c, s))"
    and 2: "(c', s') \<in> set (rx_match b (c1, s1))"
    by auto
  from Seq.prems(1) have "binds i a \<or> binds i b" by simp
  then show ?case
  proof
    assume "binds i a"
    from Seq.IH(1) [OF this 1] have "c1 i \<noteq> None" .
    with 2 show ?thesis by (rule rx_match_keeps)
  next
    assume "binds i b"
    from Seq.IH(2) [OF this 2] show ?thesis .
  qed
next
  case (Alt a b)
  then show ?case by auto
next
  case (Group j r)
  from Group.prems(2) obtain c1 where 1: "(c1, s') \<in> set (rx_match r (c, s))"
    and 2: "c' = c1(j \<mapsto> take (length s - length s') s)"
    by auto
  show ?case
  proof (cases "i = j")
    case True
    with 2 show ?thesis by simp
  next
    case False
    with Group.prems(1) have "binds i r" by simp
    from Group.IH [OF this 1] 2 show ?thesis by simp
  qed
qed simp_all

lemma rx_match_hd_binds:
  "binds i r \<Longrightarrow> rx_match r (c, s) = (c', s') # rest \<Longrightarrow> c' i \<noteq> None"
  using rx_match_binds [of i r c' s' c s] by simp

lemma rx_search_binds:
  "binds i r \<Longrightarrow> rx_search r s = Some m \<Longrightarrow> m_groups m i \<noteq> None"
proof (induction s arbitrary: m)
  case Nil
  then show ?case
    by (auto split: list.splits dest: rx_match_hd_binds)
next
  case (Cons x xs)
  show ?case
  proof (cases "rx_match r (Map.empty, x # xs)")
    case Nil
    with Cons.prems obtain m' where
      m': "rx_search r xs = Some m'" "m = m'\<lparr>m_before := x # m_before m'\<rparr>"
      by auto
    with Cons.IH [OF Cons.prems(1) m'(1)] show ?thesis by simp
  next
    case (Cons p ps)
    obtain c' s' where p: "p = (c', s')" by (cases p)
    from rx_match_hd_binds [OF Cons.prems(1) Cons [unfolded p]] have "c' i \<noteq> None" .
    with Cons p Cons.prems(2) show ?thesis by auto
  qed
qed

lemma rx_match_all_binds:
  "binds i r \<Longrightarrow> m \<in> set (rx_match_all r s) \<Longrightarrow> m_groups m i \<noteq> None"
proof (induction r s rule: rx_match_all.induct)
  case (1 r s)
  show ?case
  proof (cases "rx_search r s")
    case None
    with "1.prems" show ?thesis by (simp add: rx_match_all.simps)
  next
    case (Some m0)
    from rx_search_binds [OF "1.prems"(1) Some] have m0: "m_groups m0 i \<noteq> None" .
    from "1.prems"(2) Some have
      "m = m0 \<or> m \<in> set (if m_text m0 = [] then
                 (case m_after m0 of [] \<Rightarrow> [] | x # xs \<Rightarrow> rx_match_all r xs)
               else rx_match_all r (m_after m0))"
      by (subst (asm) rx_match_all.simps) simp
    then show ?thesis
    proof
      assume "m = m0" with m0 show ?thesis by simp
    next
      assume rest: "m \<in> set (if m_text m0 = [] then
                 (case m_after m0 of [] \<Rightarrow> [] | x # xs \<Rightarrow> rx_match_all r xs)
               else rx_match_all r (m_after m0))"
      show ?thesis
      proof (cases "m_text m0 = []")
        case True
        with rest obtain x xs where xs: "m_after m0 = x # xs" "m \<in> set (rx_match_all r xs)"
          by (cases "m_after m0") auto
        from "1.IH"(1) [OF Some True xs(1) "1.prems"(1) xs(2)] show ?thesis .
      next
        case False
        with rest have "m \<in> set (rx_match_all r (m_after m0))" by simp
        from "1.IH"(2) [OF Some False "1.prems"(1) this] show ?thesis .
      qed
    qed
  qed
qed

lemma group_binds:
  "binds i r \<Longrightarrow> rx_search r s = Some m \<Longrightarrow> \<exists>g. match_group m i = Inr g"
  using rx_search_binds [of i r s m] by (auto simp: match_group_def split: option.splits)

lemma binds_regexes:
  "binds 1 (re_call nm)" "binds 1 (re_field nm)" "binds 1 re_method" "binds 1 (re_block nm)"
  "binds 1 re_header_entry" "binds 2 re_header_entry" "binds 1 re_body_json" "binds 1 re_data"
  by (simp_all add: re_call_def re_field_def re_method_def re_block_def re_header_entry_def
      re_body_json_def re_data_def)


lemma extract_url_result:
  "binds 1 r \<Longrightarrow>
   \<exists>u. extract_url r code res = Inr (res\<lparr>url := u\<rparr>) \<and> (rx_search r code = None \<longrightarrow> u = url res)"
proof (cases "rx_search r code")
  case None
  then show ?thesis by (auto simp: extract_url_def intro: exI [of _ "url res"])
next
  case (Some m)
  assume "binds 1 r"
  from group_binds [OF this Some] obtain g where "match_group m 1 = Inr g" by blast
  with Some show ?thesis by (auto simp: extract_url_def bind_def)
qed

lemma extract_method_result:
  "\<exists>v. extract_method code res = Inr (res\<lparr>method := v\<rparr>)
       \<and> (rx_search re_method code = None \<longrightarrow> v = method res)"
proof (cases "rx_search re_method code")
  case None
  then show ?thesis by (auto simp: extract_method_def intro: exI [of _ "method res"])
next
  case (Some m)
  from group_binds [OF binds_regexes(3) Some] obtain g where "match_group m 1 = Inr g" by blast
  with Some show ?thesis by (auto simp: extract_method_def bind_def)
qed

lemma header_entries_result:
  "list_all (\<lambda>m. m_groups m 1 \<noteq> None \<and> m_groups m 2 \<noteq> None) ms \<Longrightarrow>
   \<exists>h. header_entries ms res = Inr (res\<lparr>headers := h\<rparr>)"
proof (induction ms arbitrary: res)
  case Nil
  show ?case by (auto intro: exI [of _ "headers res"])
next
  case (Cons m ms)
  then obtain k v where kv: "m_groups m 1 = Some k" "m_groups m 2 = Some v" by auto
  from Cons.prems have "list_all (\<lambda>m. m_groups m 1 \<noteq> None \<and> m_groups m 2 \<noteq> None) ms" by simp
  from Cons.IH [OF this, of "res\<lparr>headers := set_prop k v (headers res)\<rparr>"] kv
  show ?case by (simp add: bind_def match_group_def)
qed

lemma extract_headers_result:
  "\<exists>h. extract_headers code res = Inr (res\<lparr>headers := h\<rparr>)
       \<and> (rx_search (re_block ''headers'') code = None \<longrightarrow> h = headers res)"
proof (cases "rx_search (re_block ''headers'') code")
  case None
  then show ?thesis by (auto simp: extract_headers_def intro: exI [of _ "headers res"])
next
  case (Some m)
  from group_binds [OF binds_regexes(4) Some] obtain g where g: "match_group m 1 = Inr g" by blast
  have "list_all (\<lambda>m. m_groups m 1 \<noteq> None \<and> m_groups m 2 \<noteq> None) (rx_match_all re_header_entry g)"
    using rx_match_all_binds [OF binds_regexes(5)] rx_match_all_binds [OF binds_regexes(6)]
    by (auto simp: list_all_iff)
  from header_entries_result [OF this, of res] Some g show ?thesis
    by (simp add: extract_headers_def bind_def)
qed

lemma extract_fetch_body_result:
  "\<exists>b. extract_fetch_body code res = Inr (res\<lparr>body := b\<rparr>)
       \<and> (rx_search (re_field ''body'') code = None \<and> rx_search re_body_json code = None
            \<longrightarrow> b = body res)"
proof (cases "rx_search re_body_json code")
  case (Some m)
  from group_binds [OF binds_regexes(7) Some] obtain g where "match_group m 1 = Inr g" by blast
  with Some show ?thesis by (auto simp: extract_fetch_body_def bind_def)
next
  case None
  show ?thesis
  proof (cases "rx_search (re_field ''body'') code")
    case None
    with \<open>rx_search re_body_json code = None\<close> show ?thesis
      by (auto simp: extract_fetch_body_def intro: exI [of _ "body res"])
  next
    case (Some m)
    from group_binds [OF binds_regexes(2) Some] obtain g where "match_group m 1 = Inr g" by blast
    with Some None show ?thesis by (auto simp: extract_fetch_body_def bind_def)
  qed
qed

lemma parseFetchCode_result:
  "\<exists>u v h b. parseFetchCode code =
       Inr \<lparr>method = v, url = u, headers = h, body = b, contentType = None, auth = None,
            followRedirects = True, insecure = False\<rparr>
     \<and> (rx_search (re_call ''fetch'') code = None \<longrightarrow> u = [])
     \<and> (rx_search re_method code = None \<longrightarrow> v = ''GET'')
     \<and> (rx_search (re_block ''headers'') code = None \<longrightarrow> h = [])
     \<and> (rx_search (re_field ''body'') code = None \<and> rx_search re_body_json code = None
          \<longrightarrow> b = None)"
proof -
  obtain u where u: "extract_url (re_call ''fetch'') code new_request = Inr (new_request\<lparr>url := u\<rparr>)"
    "rx_search (re_call ''fetch'') code = None \<longrightarrow> u = url new_request"
    using extract_url_result [OF binds_regexes(1)] by blast
  obtain v where v: "extract_method code (new_request\<lparr>url := u\<rparr>) = Inr (new_request\<lparr>url := u, method := v\<rparr>)"
    "rx_search re_method code = None \<longrightarrow> v = method (new_request\<lparr>url := u\<rparr>)"
    using extract_method_result [of code "new_request\<lparr>url := u\<rparr>"] by auto
  obtain h where h: "extract_headers code (new_request\<lparr>url := u, method := v\<rparr>) =
      Inr (new_request\<lparr>url := u, method := v, headers := h\<rparr>)"
    "rx_search (re_block ''headers'') code = None \<longrightarrow> h = headers (new_request\<lparr>url := u, method := v\<rparr>)"
    using extract_headers_result [of code "new_request\<lparr>url := u, method := v\<rparr>"] by auto
  obtain b where b: "extract_fetch_body code (new_request\<lparr>url := u, method := v, headers := h\<rparr>) =
      Inr (new_request\<lparr>url := u, method := v, headers := h, body := b\<rparr>)"
    "rx_search (re_field ''body'') code = None \<and> rx_search re_body_json code = None
            \<longrightarrow> b = body (new_request\<lparr>url := u, method := v, headers := h\<rparr>)"
    using extract_fetch_body_result [of code "new_request\<lparr>url := u, method := v, headers := h\<rparr>"] by auto
  have "parseFetchCode code = Inr (new_request\<lparr>url := u, method := v, headers := h, body := b\<rparr>)"
    by (simp add: parseFetchCode_def bind_def u(1) v(1) h(1) b(1))
  with u(2) v(2) h(2) b(2) show ?thesis
    by (intro exI [of _ u] exI [of _ v] exI [of _ h] exI [of _ b]) (simp add: new_request_def)
qed


lemma extract_simple_post_result:
  "\<exists>u v. extract_simple_post code res = Inr (res\<lparr>url := u, method := v\<rparr>)
       \<and> (rx_search (re_call ''axios.post'') code = None \<longrightarrow> u = url res \<and> v = method res)"
proof (cases "rx_search (re_call ''axios.post'') code")
  case None
  then show ?thesis
    by (auto simp: extract_simple_post_def intro!: exI [of _ "url res"] exI [of _ "method res"])
next
  case (Some m)
  from group_binds [OF binds_regexes(1) Some] obtain g where "match_group m 1 = Inr g" by blast
  with Some show ?thesis by (auto simp: extract_simple_post_def bind_def)
qed

lemma extract_auth_result:
  "\<exists>a. extract_auth code res = Inr (res\<lparr>auth := a\<rparr>)
       \<and> (rx_search (re_block ''auth'') code = None \<longrightarrow> a = auth res)"
proof (cases "rx_search (re_block ''auth'') code")
  case None
  then show ?thesis by (auto simp: extract_auth_def intro: exI [of _ "auth res"])
next
  case (Some m)
  from group_binds [OF binds_regexes(4) Some] obtain g where g: "match_group m 1 = Inr g" by blast
  show ?thesis
  proof (cases "rx_search (re_field ''username'') g")
    case None
    with Some g show ?thesis
      by (auto simp: extract_auth_def bind_def intro: exI [of _ "auth res"])
  next
    case um: (Some um)
    from group_binds [OF binds_regexes(2) um] obtain u where u: "match_group um 1 = Inr u" by blast
    have "\<exists>p. (case rx_search (re_field ''password'') g of
                 Some pm \<Rightarrow> match_group pm 1 | None \<Rightarrow> Inr []) = Inr p"
      using group_binds [OF binds_regexes(2), of "''password''" g]
      by (cases "rx_search (re_field ''password'') g") auto
    then obtain p where "(case rx_search (re_field ''password'') g of
                 Some pm \<Rightarrow> match_group pm 1 | None \<Rightarrow> Inr []) = Inr p" by blast
    with Some g um u show ?thesis
      by (auto simp: extract_auth_def bind_def Let_def)
  qed
qed

lemma extract_data_result:
  "\<exists>b. extract_data code res = Inr (res\<lparr>body := b\<rparr>)
       \<and> (rx_search re_data code = None \<longrightarrow> b = body res)"
  by (cases "rx_search re_data code")
     (auto simp: extract_data_def intro: exI [of _ "body res"])

lemma parseAxiosCode_get:
  assumes "rx_search (re_call ''axios.get'') code = Some m"
  shows "\<exists>u. m_groups m 1 = Some u \<and> parseAxiosCode code = Inr (new_request\<lparr>url := u\<rparr>)"
proof -
  from rx_search_binds [OF binds_regexes(1) assms] obtain u where "m_groups m 1 = Some u"
    by auto
  with assms show ?thesis
    by (simp add: parseAxiosCode_def bind_def match_group_def)
qed

lemma parseAxiosCode_result:
  "\<exists>u v h b a. parseAxiosCode code =
       Inr \<lparr>method = v, url = u, headers = h, body = b, contentType = None, auth = a,
            followRedirects = True, insecure = False\<rparr>
     \<and> (rx_search (re_call ''axios.get'') code = None
          \<and> rx_search (re_call ''axios.post'') code = None
          \<and> rx_search (re_field ''url'') code = None \<longrightarrow> u = [])
     \<and> (rx_search (re_call ''axios.post'') code = None \<and> rx_search re_method code = None
          \<longrightarrow> v = ''GET'')
     \<and> (rx_search (re_block ''headers'') code = None \<longrightarrow> h = [])
     \<and> (rx_search re_data code = None \<longrightarrow> b = None)
     \<and> (rx_search (re_block ''auth'') code = None \<longrightarrow> a = None)"
proof (cases "rx_search (re_call ''axios.get'') code")
  case (Some m)
  from parseAxiosCode_get [OF Some] obtain u where
    "parseAxiosCode code = Inr (new_request\<lparr>url := u\<rparr>)" by blast
  with Some show ?thesis
    by (intro exI [of _ u] exI [of _ "''GET''"] exI [of _ "[]"] exI [of _ None])
       (simp add: new_request_def)
next
  case None
  obtain u0 v0 where p: "extract_simple_post code new_request = Inr (new_request\<lparr>url := u0, method := v0\<rparr>)"
    "rx_search (re_call ''axios.post'') code = None \<longrightarrow> u0 = url new_request \<and> v0 = method new_request"
    using extract_simple_post_result [of code new_request] by auto
  let ?r1 = "new_request\<lparr>url := u0, method := v0\<rparr>"
  obtain u where u: "extract_url (re_field ''url'') code ?r1 = Inr (?r1\<lparr>url := u\<rparr>)"
    "rx_search (re_field ''url'') code = None \<longrightarrow> u = url ?r1"
    using extract_url_result [OF binds_regexes(2), of "''url''" code ?r1] by auto
  let ?r2 = "?r1\<lparr>url := u\<rparr>"
  obtain v where v: "extract_method code ?r2 = Inr (?r2\<lparr>method := v\<rparr>)"
    "rx_search re_method code = None \<longrightarrow> v = method ?r2"
    using extract_method_result [of code ?r2] by auto
  let ?r3 = "?r2\<lparr>method := v\<rparr>"
  obtain h where h: "extract_headers code ?r3 = Inr (?r3\<lparr>headers := h\<rparr>)"
    "rx_search (re_block ''headers'') code = None \<longrightarrow> h = headers ?r3"
    using extract_headers_result [of code ?r3] by auto
  let ?r4 = "?r3\<lparr>headers := h\<rparr>"
  obtain a where a: "extract_auth code ?r4 = Inr (?r4\<lparr>auth := a\<rparr>)"
    "rx_search (re_block ''auth'') code = None \<longrightarrow> a = auth ?r4"
    using extract_auth_result [of code ?r4] by auto
  let ?r5 = "?r4\<lparr>auth := a\<rparr>"
  obtain b where b: "extract_data code ?r5 = Inr (?r5\<lparr>body := b\<rparr>)"
    "rx_search re_data code = None \<longrightarrow> b = body ?r5"
    using extract_data_result [of code ?r5] by auto
  have "parseAxiosCode code = Inr (?r5\<lparr>body := b\<rparr>)"
    using None p(1) u(1) v(1) h(1) a(1) b(1) by (simp add: parseAxiosCode_def bind_def)
  with p(2) u(2) v(2) h(2) a(2) b(2) show ?thesis
    by (intro exI [of _ u] exI [of _ v] exI [of _ h] exI [of _ b] exI [of _ a])
       (simp add: new_request_def)
qed


text \<open>
  Claim C9. For every input, \<open>parseFetchCode\<close> and \<open>parseAxiosCode\<close> return a record and
  raise no error (every group the code reads is defined whenever its regular expression
  matches). A field whose patterns do not occur in the input has its default: the URL is
  empty, the method is \<open>GET\<close>, the headers are empty, the body and the auth are unset;
  \<open>contentType\<close>, \<open>followRedirects\<close> and \<open>insecure\<close> always have their defaults.
\<close>

theorem extractors_never_fail:
  "(\<exists>u v h b. parseFetchCode code =
       Inr \<lparr>method = v, url = u, headers = h, body = b, contentType = None, auth = None,
            followRedirects = True, insecure = False\<rparr>
     \<and> (rx_search (re_call ''fetch'') code = None \<longrightarrow> u = [])
     \<and> (rx_search re_method code = None \<longrightarrow> v = ''GET'')
     \<and> (rx_search (re_block ''headers'') code = None \<longrightarrow> h = [])
     \<and> (rx_search (re_field ''body'') code = None \<and> rx_search re_body_json code = None
          \<longrightarrow> b = None))
   \<and> (\<exists>u v h b a. parseAxiosCode code =
       Inr \<lparr>method = v, url = u, headers = h, body = b, contentType = None, auth = a,
            followRedirects = True, insecure = False\<rparr>
     \<and> (rx_search (re_call ''axios.get'') code = None
          \<and> rx_search (re_call ''axios.post'') code = None
          \<and> rx_search (re_field ''url'') code = None \<longrightarrow> u = [])
     \<and> (rx_search (re_call ''axios.post'') code = None \<and> rx_search re_method code = None
          \<longrightarrow> v = ''GET'')
     \<and> (rx_search (re_block ''headers'') code = None \<longrightarrow> h = [])
     \<and> (rx_search re_data code = None \<longrightarrow> b = None)
     \<and> (rx_search (re_block ''auth'') code = None \<longrightarrow> a = None))"
  using parseFetchCode_result [of code] parseAxiosCode_result [of code] by (rule conjI)

lemmas rx_eval = re_call_def re_field_def re_method_def re_block_def re_header_entry_def
  re_body_json_def re_data_def isSpace_def isQuote_def isWord_def

lemmas extract_eval = parseFetchCode_def parseAxiosCode_def extract_url_def extract_method_def
  extract_headers_def extract_fetch_body_def extract_simple_post_def extract_auth_def
  extract_data_def header_entries.simps rx_match_all.simps bind_def match_group_def
  new_request_def toUpperCase_def upperChar_def set_prop_def isArrayIndex_def Let_def

theorem extractors_never_fail_witness:
  "rx_search (re_call ''fetch'') ''not a snippet'' = None
   \<and> rx_search (re_call ''axios.get'') ''not a snippet'' = None
   \<and> rx_search (re_call ''axios.post'') ''not a snippet'' = None
   \<and> rx_search (re_field ''url'') ''not a snippet'' = None
   \<and> rx_search re_method ''not a snippet'' = None
   \<and> rx_search (re_block ''headers'') ''not a snippet'' = None
   \<and> rx_search (re_field ''body'') ''not a snippet'' = None
   \<and> rx_search re_body_json ''not a snippet'' = None
   \<and> rx_search re_data ''not a snippet'' = None
   \<and> rx_search (re_block ''auth'') ''not a snippet'' = None
   \<and> parseFetchCode ''not a snippet'' = Inr new_request
   \<and> parseAxiosCode ''not a snippet'' = Inr new_request"
  using extractors_never_fail [of "''not a snippet''"]
  by (simp add: rx_eval) (auto simp: new_request_def)

lemma parseFetchCode_partial:
  "parseFetchCode (''fetch('' @ [squote] @ ''http://x'' @ [squote] @ '', { method: '' @ [squote] @ ''put'' @ [squote])
     = Inr (new_request\<lparr>method := ''PUT'', url := ''http://x''\<rparr>)"
  by (simp add: rx_eval extract_eval)


text \<open>
  Claim C10. When the pattern of the shorthand \<open>axios.get\<close> call matches,
  \<open>parseAxiosCode\<close> returns the default record with the URL of the call and nothing else:
  on \<open>axios_example\<close> with \<open>axios.get\<close> the method, the headers, the auth and the data of
  the snippet are ignored, while with \<open>axios.post\<close> they are all extracted.
\<close>

theorem axios_get_returns_early:
  "(rx_search (re_call ''axios.get'') code = Some m \<longrightarrow>
      (\<exists>u. m_groups m 1 = Some u \<and> parseAxiosCode code = Inr (new_request\<lparr>url := u\<rparr>)))
   \<and> parseAxiosCode (axios_example ''axios.get'') = Inr (new_request\<lparr>url := ''http://x''\<rparr>)
   \<and> parseAxiosCode (axios_example ''axios.post'') =
       Inr (new_request\<lparr>method := ''PUT'', url := ''http://x'', headers := [(''A'', ''b'')],
              body := Some ''d'', auth := Some \<lparr>user = ''u'', pass = ''p''\<rparr>\<rparr>)"
proof (intro conjI impI)
  assume "rx_search (re_call ''axios.get'') code = Some m"
  then show "\<exists>u. m_groups m 1 = Some u \<and> parseAxiosCode code = Inr (new_request\<lparr>url := u\<rparr>)"
    by (rule parseAxiosCode_get)
next
  show "parseAxiosCode (axios_example ''axios.get'') = Inr (new_request\<lparr>url := ''http://x''\<rparr>)"
    by (simp add: axios_example_def rx_eval extract_eval)
next
  show "parseAxiosCode (axios_example ''axios.post'') =
       Inr (new_request\<lparr>method := ''PUT'', url := ''http://x'', headers := [(''A'', ''b'')],
              body := Some ''d'', auth := Some \<lparr>user = ''u'', pass = ''p''\<rparr>\<rparr>)"
    by (simp add: axios_example_def rx_eval extract_eval)
qed


theorem axios_get_returns_early_witness:
  "rx_search (re_call ''axios.get'') (''x = axios.get('' @ [squote] @ ''/a'' @ [squote] @ '')'') =
     Some \<lparr>m_before = ''x = '', m_text = ''axios.get('' @ [squote] @ ''/a'' @ [squote],
           m_groups = [1 \<mapsto> ''/a''], m_after = '')''\<rparr>
   \<and> parseAxiosCode (''x = axios.get('' @ [squote] @ ''/a'' @ [squote] @ '')'') =
       Inr (new_request\<lparr>url := ''/a''\<rparr>)"
  using axios_get_returns_early [of "''x = axios.get('' @ [squote] @ ''/a'' @ [squote] @ '')''"
      "\<lparr>m_before = ''x = '', m_text = ''axios.get('' @ [squote] @ ''/a'' @ [squote],
           m_groups = [1 \<mapsto> ''/a''], m_after = '')''\<rparr>"]
  by (simp add: rx_eval)

section \<open>The collection importer\<close>

lemma flattenItems_preorder:
  "flattenItems its acc = acc @ concat (map preorder_leaves its)"
  by (induction its acc rule: flattenItems.induct) simp_all

lemma map_items_append:
  "map_items (xs @ ys) =
     bind (map_items xs) (\<lambda>a. bind (map_items ys) (\<lambda>b. Inr (a @ b)))"
  by (induction xs) (auto simp: bind_def split: sum.splits)

lemma map_items_concat:
  assumes "\<And>x. x \<in> set xs \<Longrightarrow>
    map_items (preorder_leaves x) = Inr (map request_record (leaf_requests x))"
  shows "map_items (concat (map preorder_leaves xs)) =
     Inr (map request_record (concat (map leaf_requests xs)))"
  using assms by (induction xs) (simp_all add: map_items_append bind_def)

lemma map_items_leaves:
  "map_items (preorder_leaves x) = Inr (map request_record (leaf_requests x))"
proof (induction x rule: preorder_leaves.induct)
  case (1 n r children)
  then show ?case by (simp add: map_items_concat)
next
  case (2 n r)
  then show ?case by (simp add: bind_def item_request_def)
next
  case (3 n)
  then show ?case by simp
qed

text \<open>
  Claim C8. \<open>flattenItems\<close> appends to the array the leaves of the item tree in depth-first
  pre-order (\<open>preorder_leaves\<close>: a node with a nested list is descended into and its own
  request ignored, a node without one and with a request is a leaf), so the importer
  returns one record for each leaf request, in document order. Two folders with one leaf
  request each give the two records of these requests, in this order, whatever the names
  of the folders and whatever requests the folders themselves carry.
\<close>

theorem flatten_document_order:
  "flattenItems its acc = acc @ concat (map preorder_leaves its)
   \<and> (JSON_parse json = Some \<lparr>collection_item = Some its\<rparr> \<longrightarrow>
        parsePostmanCollection JSON_parse json =
          Inr (map request_record (concat (map leaf_requests its))))
   \<and> (JSON_parse json =
          Some \<lparr>collection_item =
            Some [PostmanItem f1 x1 (Some [PostmanItem n1 (Some r1) None]),
                  PostmanItem f2 x2 (Some [PostmanItem n2 (Some r2) None])]\<rparr> \<longrightarrow>
        parsePostmanCollection JSON_parse json = Inr [request_record r1, request_record r2])"
proof (intro conjI impI)
  show "flattenItems its acc = acc @ concat (map preorder_leaves its)"
    by (rule flattenItems_preorder)
  have all: "map_items (flattenItems l []) = Inr (map request_record (concat (map leaf_requests l)))"
    for l
    unfolding flattenItems_preorder by (simp add: map_items_concat map_items_leaves)
  {
    assume "JSON_parse json = Some \<lparr>collection_item = Some its\<rparr>"
    then show "parsePostmanCollection JSON_parse json =
          Inr (map request_record (concat (map leaf_requests its)))"
      by (simp add: parsePostmanCollection_def all del: flattenItems.simps)
  }
  {
    assume "JSON_parse json =
          Some \<lparr>collection_item =
            Some [PostmanItem f1 x1 (Some [PostmanItem n1 (Some r1) None]),
                  PostmanItem f2 x2 (Some [PostmanItem n2 (Some r2) None])]\<rparr>"
    then show "parsePostmanCollection JSON_parse json = Inr [request_record r1, request_record r2]"
      by (simp add: parsePostmanCollection_def all del: flattenItems.simps)
  }
qed


lemmas postman_eval = parsePostmanCollection_def item_request_def request_record_def bind_def
  or_else_def resolve_url_def resolve_headers_def resolve_body_def resolve_auth_def
  new_request_def

theorem flatten_document_order_witness:
  "(\<lambda>s. Some \<lparr>collection_item =
            Some [PostmanItem ''Users'' None (Some [PostmanItem ''list'' (Some
                    \<lparr>req_method = Some ''GET'', req_url = Some (UrlString ''https://a.example/users''),
                       header = None, req_body = None, req_auth = None\<rparr>) None]),
                  PostmanItem ''Orders'' None (Some [PostmanItem ''create'' (Some
                    \<lparr>req_method = Some ''POST'', req_url = Some (UrlString ''https://a.example/orders''),
                       header = None, req_body = None, req_auth = None\<rparr>) None])]\<rparr>) ''{}''
     = Some \<lparr>collection_item =
            Some [PostmanItem ''Users'' None (Some [PostmanItem ''list'' (Some
                    \<lparr>req_method = Some ''GET'', req_url = Some (UrlString ''https://a.example/users''),
                       header = None, req_body = None, req_auth = None\<rparr>) None]),
                  PostmanItem ''Orders'' None (Some [PostmanItem ''create'' (Some
                    \<lparr>req_method = Some ''POST'', req_url = Some (UrlString ''https://a.example/orders''),
                       header = None, req_body = None, req_auth = None\<rparr>) None])]\<rparr>
   \<and> parsePostmanCollection
        (\<lambda>s. Some \<lparr>collection_item =
            Some [PostmanItem ''Users'' None (Some [PostmanItem ''list'' (Some
                    \<lparr>req_method = Some ''GET'', req_url = Some (UrlString ''https://a.example/users''),
                       header = None, req_body = None, req_auth = None\<rparr>) None]),
                  PostmanItem ''Orders'' None (Some [PostmanItem ''create'' (Some
                    \<lparr>req_method = Some ''POST'', req_url = Some (UrlString ''https://a.example/orders''),
                       header = None, req_body = None, req_auth = None\<rparr>) None])]\<rparr>) ''{}''
     = Inr [new_request\<lparr>url := ''https://a.example/users''\<rparr>,
            new_request\<lparr>method := ''POST'', url := ''https://a.example/orders''\<rparr>]"
  using flatten_document_order [of
      "[PostmanItem ''Users'' None (Some [PostmanItem ''list'' (Some
                    \<lparr>req_method = Some ''GET'', req_url = Some (UrlString ''https://a.example/users''),
                       header = None, req_body = None, req_auth = None\<rparr>) None]),
                  PostmanItem ''Orders'' None (Some [PostmanItem ''create'' (Some
                    \<lparr>req_method = Some ''POST'', req_url = Some (UrlString ''https://a.example/orders''),
                       header = None, req_body = None, req_auth = None\<rparr>) None])]"
      "[]"
      "\<lambda>s. Some \<lparr>collection_item =
            Some [PostmanItem ''Users'' None (Some [PostmanItem ''list'' (Some
                    \<lparr>req_method = Some ''GET'', req_url = Some (UrlString ''https://a.example/users''),
                       header = None, req_body = None, req_auth = None\<rparr>) None]),
                  PostmanItem ''Orders'' None (Some [PostmanItem ''create'' (Some
                    \<lparr>req_method = Some ''POST'', req_url = Some (UrlString ''https://a.example/orders''),
                       header = None, req_body = None, req_auth = None\<rparr>) None])]\<rparr>"
      "''{}''"
      "''Users''" None "''list''"
      "\<lparr>req_method = Some ''GET'', req_url = Some (UrlString ''https://a.example/users''),
                       header = None, req_body = None, req_auth = None\<rparr>"
      "''Orders''" None "''create''"
      "\<lparr>req_method = Some ''POST'', req_url = Some (UrlString ''https://a.example/orders''),
                       header = None, req_body = None, req_auth = None\<rparr>"]
  by (simp add: postman_eval)

subsection \<open>The method of a record\<close>

text \<open>The command parser and both extractors give a non-empty, upper-case method (a
  text that \<open>toUpperCase\<close> leaves as it is); the importer gives a non-empty one.\<close>

lemma upperChar_idem: "upperChar (upperChar c) = upperChar c"
  by (auto simp: upperChar_def split: option.splits if_splits)

lemma toUpperCase_idem: "toUpperCase (toUpperCase s) = toUpperCase s"
  by (simp add: toUpperCase_def upperChar_idem)

lemma toUpperCase_Nil_iff: "toUpperCase s = [] \<longleftrightarrow> s = []"
  by (simp add: toUpperCase_def)

lemma flag_args_nonempty: "(t, n) \<in> set (flag_args toks) \<Longrightarrow> n \<noteq> []"
  by (induction toks rule: flag_args.induct) (auto split: if_splits)

lemma parseCurl_method_uppercase:
  "method (parseCurl input) \<noteq> [] \<and> toUpperCase (method (parseCurl input)) = method (parseCurl input)"
proof (cases "explicit_methods (flag_args (curl_tokens input))")
  case Nil
  then show ?thesis
    unfolding parseCurl_def curl_loop_method
    by (simp add: new_request_def toUpperCase_def upperChar_def)
next
  case (Cons m ms)
  have "last (m # ms) \<in> set (explicit_methods (flag_args (curl_tokens input)))"
    unfolding Cons by (rule last_in_set) simp
  then have "last (m # ms) \<noteq> []"
    by (auto simp: explicit_methods_def dest: flag_args_nonempty)
  with Cons show ?thesis
    unfolding parseCurl_def curl_loop_method
    by (simp add: toUpperCase_idem toUpperCase_Nil_iff)
qed


lemma rx_match_consumes:
  "consumes r \<Longrightarrow> (c', s') \<in> set (rx_match r (c, s)) \<Longrightarrow> length s' < length s"
proof (induction r arbitrary: c s c' s')
  case (Lit l)
  then show ?case by (cases s) (auto split: if_splits)
next
  case (Class P)
  then show ?case by (auto split: list.splits if_splits)
next
  case (Rep P n)
  then show ?case using length_takeWhile_le [of P s] by (auto simp del: upt_Suc)
next
  case (Seq a b)
  from Seq.prems(2) obtain c1 s1 where 1: "(c1, s1) \<in> set (rx_match a (c, s))"
    and 2: "(c', s') \<in> set (rx_match b (c1, s1))"
    by auto
  from rx_match_suffix [OF 1] have le1: "length s1 \<le> length s" by auto
  from rx_match_suffix [OF 2] have le2: "length s' \<le> length s1" by auto
  from Seq.prems(1) have "consumes a \<or> consumes b" by simp
  then show ?case
  proof
    assume "consumes a"
    from Seq.IH(1) [OF this 1] le2 show ?thesis by simp
  next
    assume "consumes b"
    from Seq.IH(2) [OF this 2] le1 show ?thesis by simp
  qed
next
  case (Alt a b)
  then show ?case by auto
next
  case (Group j r)
  then show ?case by auto
qed

lemma rx_match_unmentioned:
  "\<not> mentions i r \<Longrightarrow> (c', s') \<in> set (rx_match r (c, s)) \<Longrightarrow> c' i = c i"
proof (induction r arbitrary: c s c' s')
  case (Seq a b)
  from Seq.prems(2) obtain c1 s1 where 1: "(c1, s1) \<in> set (rx_match a (c, s))"
    and 2: "(c', s') \<in> set (rx_match b (c1, s1))"
    by auto
  from Seq.prems(1) Seq.IH(1) [OF _ 1] Seq.IH(2) [OF _ 2] show ?case by simp
next
  case (Group j r)
  from Group.prems(2) obtain c1 where 1: "(c1, s') \<in> set (rx_match r (c, s))"
    and 2: "c' = c1(j \<mapsto> take (length s - length s') s)"
    by auto
  from Group.prems(1) Group.IH [OF _ 1] 2 show ?case by simp
qed (auto split: if_splits list.splits)

lemma rx_match_binds_text:
  "binds_text i r \<Longrightarrow> (c', s') \<in> set (rx_match r (c, s)) \<Longrightarrow>
   \<exists>g. c' i = Some g \<and> g \<noteq> []"
proof (induction r arbitrary: c s c' s')
  case (Seq a b)
  from Seq.prems(2) obtain c1 s1 where 1: "(c1, s1) \<in> set (rx_match a (c, s))"
    and 2: "(c', s') \<in> set (rx_match b (c1, s1))"
    by auto
  from Seq.prems(1) have "(binds_text i a \<and> \<not> mentions i b) \<or> binds_text i b" by simp
  then show ?case
  proof
    assume a: "binds_text i a \<and> \<not> mentions i b"
    then have "c' i = c1 i" using rx_match_unmentioned [OF _ 2] by simp
    with Seq.IH(1) [OF _ 1] a show ?thesis by simp
  next
    assume "binds_text i b"
    from Seq.IH(2) [OF this 2] show ?thesis .
  qed
next
  case (Alt a b)
  then show ?case by auto
next
  case (Group j r)
  from Group.prems(2) obtain c1 where 1: "(c1, s') \<in> set (rx_match r (c, s))"
    and 2: "c' = c1(j \<mapsto> take (length s - length s') s)"
    by auto
  show ?case
  proof (cases "i = j")
    case True
    with Group.prems(1) have "consumes r" by simp
    from rx_match_consumes [OF this 1] have "take (length s - length s') s \<noteq> []"
      by (cases s) auto
    with 2 True show ?thesis by simp
  next
    case False
    with Group.prems(1) have "binds_text i r" by simp
    from Group.IH [OF this 1] 2 False show ?thesis by simp
  qed
qed simp_all

lemma rx_search_binds_text:
  "binds_text i r \<Longrightarrow> rx_search r s = Some m \<Longrightarrow> \<exists>g. m_groups m i = Some g \<and> g \<noteq> []"
proof (induction s arbitrary: m)
  case Nil
  show ?case
  proof (cases "rx_match r (Map.empty, [])")
    case Nil
    with Nil.prems show ?thesis by simp
  next
    case (Cons p ps)
    obtain c' s' where p: "p = (c', s')" by (cases p)
    from rx_match_binds_text [OF Nil.prems(1), of c' s' Map.empty "[]"] Cons p
    have "\<exists>g. c' i = Some g \<and> g \<noteq> []" by simp
    with Cons p Nil.prems(2) show ?thesis by auto
  qed
next
  case (Cons x xs)
  show ?case
  proof (cases "rx_match r (Map.empty, x # xs)")
    case Nil
    with Cons.prems obtain m' where
      m': "rx_search r xs = Some m'" "m = m'\<lparr>m_before := x # m_before m'\<rparr>"
      by auto
    with Cons.IH [OF Cons.prems(1) m'(1)] show ?thesis by simp
  next
    case (Cons p ps)
    obtain c' s' where p: "p = (c', s')" by (cases p)
    from rx_match_binds_text [OF Cons.prems(1), of c' s' Map.empty "x # xs"] Cons p
    have "\<exists>g. c' i = Some g \<and> g \<noteq> []" by simp
    with Cons p Cons.prems(2) show ?thesis by auto
  qed
qed

lemma extract_method_uppercase:
  "extract_method code res = Inr res' \<Longrightarrow>
   method res \<noteq> [] \<and> toUpperCase (method res) = method res \<Longrightarrow>
   method res' \<noteq> [] \<and> toUpperCase (method res') = method res'"
proof (cases "rx_search re_method code")
  case None
  assume "extract_method code res = Inr res'"
    "method res \<noteq> [] \<and> toUpperCase (method res) = method res"
  with None show ?thesis by (simp add: extract_method_def)
next
  case (Some m)
  have "binds_text 1 re_method" by (simp add: re_method_def)
  from rx_search_binds_text [OF this Some] obtain g where g: "m_groups m 1 = Some g" "g \<noteq> []"
    by blast
  assume "extract_method code res = Inr res'"
  with Some g have "res' = res\<lparr>method := toUpperCase g\<rparr>"
    by (simp add: extract_method_def bind_def match_group_def)
  with g show ?thesis by (simp add: toUpperCase_idem toUpperCase_Nil_iff)
qed


lemma parseFetchCode_method_uppercase:
  assumes "parseFetchCode code = Inr r"
  shows "method r \<noteq> [] \<and> toUpperCase (method r) = method r"
proof -
  obtain u where u: "extract_url (re_call ''fetch'') code new_request = Inr (new_request\<lparr>url := u\<rparr>)"
    using extract_url_result [OF binds_regexes(1)] by blast
  obtain v where v: "extract_method code (new_request\<lparr>url := u\<rparr>) =
      Inr (new_request\<lparr>url := u, method := v\<rparr>)"
    using extract_method_result [of code "new_request\<lparr>url := u\<rparr>"] by auto
  obtain h where h: "extract_headers code (new_request\<lparr>url := u, method := v\<rparr>) =
      Inr (new_request\<lparr>url := u, method := v, headers := h\<rparr>)"
    using extract_headers_result [of code "new_request\<lparr>url := u, method := v\<rparr>"] by auto
  obtain b where b: "extract_fetch_body code (new_request\<lparr>url := u, method := v, headers := h\<rparr>) =
      Inr (new_request\<lparr>url := u, method := v, headers := h, body := b\<rparr>)"
    using extract_fetch_body_result [of code "new_request\<lparr>url := u, method := v, headers := h\<rparr>"]
    by auto
  have "parseFetchCode code = Inr (new_request\<lparr>url := u, method := v, headers := h, body := b\<rparr>)"
    by (simp add: parseFetchCode_def bind_def u v h b)
  with assms have r: "method r = v" by auto
  have "method (new_request\<lparr>url := u, method := v\<rparr>) \<noteq> [] \<and>
      toUpperCase (method (new_request\<lparr>url := u, method := v\<rparr>)) =
      method (new_request\<lparr>url := u, method := v\<rparr>)"
    by (rule extract_method_uppercase [OF v])
       (simp add: new_request_def toUpperCase_def upperChar_def)
  with r show ?thesis by simp
qed

lemma extract_simple_post_method:
  "extract_simple_post code res = Inr res' \<Longrightarrow> method res' = method res \<or> method res' = ''POST''"
  by (cases "rx_search (re_call ''axios.post'') code")
     (auto simp: extract_simple_post_def bind_def match_group_def split: option.splits)

lemma parseAxiosCode_method_uppercase:
  assumes "parseAxiosCode code = Inr r"
  shows "method r \<noteq> [] \<and> toUpperCase (method r) = method r"
proof (cases "rx_search (re_call ''axios.get'') code")
  case (Some m)
  from parseAxiosCode_get [OF Some] assms show ?thesis
    by (auto simp: new_request_def toUpperCase_def upperChar_def)
next
  case None
  obtain u0 v0 where p: "extract_simple_post code new_request = Inr (new_request\<lparr>url := u0, method := v0\<rparr>)"
    using extract_simple_post_result [of code new_request] by auto
  let ?r1 = "new_request\<lparr>url := u0, method := v0\<rparr>"
  from extract_simple_post_method [OF p] have v0: "v0 = ''GET'' \<or> v0 = ''POST''"
    by (simp add: new_request_def)
  obtain u where u: "extract_url (re_field ''url'') code ?r1 = Inr (?r1\<lparr>url := u\<rparr>)"
    using extract_url_result [OF binds_regexes(2), of "''url''" code ?r1] by auto
  let ?r2 = "?r1\<lparr>url := u\<rparr>"
  obtain v where v: "extract_method code ?r2 = Inr (?r2\<lparr>method := v\<rparr>)"
    using extract_method_result [of code ?r2] by auto
  let ?r3 = "?r2\<lparr>method := v\<rparr>"
  obtain h where h: "extract_headers code ?r3 = Inr (?r3\<lparr>headers := h\<rparr>)"
    using extract_headers_result [of code ?r3] by auto
  let ?r4 = "?r3\<lparr>headers := h\<rparr>"
  obtain a where a: "extract_auth code ?r4 = Inr (?r4\<lparr>auth := a\<rparr>)"
    using extract_auth_result [of code ?r4] by auto
  let ?r5 = "?r4\<lparr>auth := a\<rparr>"
  obtain b where b: "extract_data code ?r5 = Inr (?r5\<lparr>body := b\<rparr>)"
    using extract_data_result [of code ?r5] by auto
  have "parseAxiosCode code = Inr (?r5\<lparr>body := b\<rparr>)"
    using None p u v h a b by (simp add: parseAxiosCode_def bind_def)
  with assms have r: "method r = v" by auto
  have "method ?r3 \<noteq> [] \<and> toUpperCase (method ?r3) = method ?r3"
    using v0 by (intro extract_method_uppercase [OF v])
       (auto simp: toUpperCase_def upperChar_def)
  with r show ?thesis by simp
qed

lemma importer_method_nonempty: "method (request_record req) \<noteq> []"
  by (simp add: request_record_def or_else_def split: option.splits)

text \<open>
  Claim C1 (every parser produces a non-empty, upper-case method). The importer copies the
  method of a request as it is, \<open>req.method || 'GET'\<close>, where the command parser and both
  extractors apply \<open>toUpperCase\<close> (the lemmas above): a text \<open>json\<close> that \<open>JSON.parse\<close>
  reads as a collection of one request with the method \<open>get\<close> gives a record with the
  method \<open>get\<close>.
\<close>

theorem importer_method_not_uppercased:
  "parsePostmanCollection
     (\<lambda>s. Some \<lparr>collection_item = Some [PostmanItem ''r'' (Some
        \<lparr>req_method = Some ''get'', req_url = Some (UrlString ''https://example.com''),
           header = None, req_body = None, req_auth = None\<rparr>) None]\<rparr>)
     json
     = Inr [new_request\<lparr>method := ''get'', url := ''https://example.com''\<rparr>]
   \<and> toUpperCase ''get'' = ''GET''"
  by (simp add: postman_eval toUpperCase_def upperChar_def)


end
